theory Spec2Isabelle
  imports Complex_Main "HOL-Library.Multiset"
begin

section \<open>Assembling ERA5 wind fields: the constructor of \<^verbatim>\<open>era5_acc_fields\<close>\<close>

text \<open>
  A shallow embedding of \<^verbatim>\<open>lib/preprocess_era5inp.py\<close>: the constructor resolves the
  daily pressure-level files an integration window needs, loads and concatenates them,
  normalises the longitude axis, derives the sampling interval, slices the window out
  and checks it for missing values. Exceptions are values of the type \<open>error\<close>; the
  file system is a function from paths to loaded datasets.
\<close>

subsection \<open>The proleptic Gregorian calendar of \<^verbatim>\<open>datetime\<close>\<close>

text \<open>
  The conversions between a date and its ordinal follow CPython's \<^verbatim>\<open>datetime\<close>
  module (\<^verbatim>\<open>_ymd2ord\<close>, \<^verbatim>\<open>_ord2ymd\<close>); \<open>month_day\<close> is the month estimate at the
  end of \<^verbatim>\<open>_ord2ymd\<close>. \<^verbatim>\<open>strftime('%Y%m%d')\<close> writes the year with four digits and
  the month and the day with two.
\<close>

definition is_leap :: "int \<Rightarrow> bool" where
  "is_leap year = (year mod 4 = 0 \<and> (year mod 400 = 0 \<or> year mod 100 \<noteq> 0))"

definition DAYS_IN_MONTH :: "int list" where
  "DAYS_IN_MONTH = [-1, 31, 28, 31, 30, 31, 30, 31, 31, 30, 31, 30, 31]"

definition DAYS_BEFORE_MONTH :: "int list" where
  "DAYS_BEFORE_MONTH = [-1, 0, 31, 59, 90, 120, 151, 181, 212, 243, 273, 304, 334]"

definition days_before_year :: "int \<Rightarrow> int" where
  "days_before_year year =
     (let y = year - 1 in y * 365 + y div 4 - y div 100 + y div 400)"

definition days_in_month :: "int \<Rightarrow> int \<Rightarrow> int" where
  "days_in_month year month =
     (if month = 2 \<and> is_leap year then 29 else DAYS_IN_MONTH ! nat month)"

definition days_before_month :: "int \<Rightarrow> int \<Rightarrow> int" where
  "days_before_month year month =
     DAYS_BEFORE_MONTH ! nat month + (if month > 2 \<and> is_leap year then 1 else 0)"

definition ymd2ord :: "int \<Rightarrow> int \<Rightarrow> int \<Rightarrow> int" where
  "ymd2ord year month day = days_before_year year + days_before_month year month + day"

definition month_day :: "bool \<Rightarrow> int \<Rightarrow> int \<times> int" where
  "month_day leapyear n =
     (let month = (n + 50) div 32;
          preceding = DAYS_BEFORE_MONTH ! nat month + (if month > 2 \<and> leapyear then 1 else 0)
      in if preceding > n
         then (let month = month - 1;
                   preceding = preceding - (DAYS_IN_MONTH ! nat month + (if month = 2 \<and> leapyear then 1 else 0))
               in (month, n - preceding + 1))
         else (month, n - preceding + 1))"

definition ord2ymd :: "int \<Rightarrow> int \<times> int \<times> int" where
  "ord2ymd n0 =
     (let n = n0 - 1;
          n400 = n div 146097; n = n mod 146097;
          year = n400 * 400 + 1;
          n100 = n div 36524; n = n mod 36524;
          n4 = n div 1461; n = n mod 1461;
          n1 = n div 365; n = n mod 365;
          year = year + n100 * 100 + n4 * 4 + n1
      in if n1 = 4 \<or> n100 = 4 then (year - 1, 12, 31)
         else
           let leapyear = (n1 = 3 \<and> (n4 \<noteq> 24 \<or> n100 = 3))
           in (case month_day leapyear n of (month, day) \<Rightarrow> (year, month, day)))"

definition digit_char :: "int \<Rightarrow> char" where
  "digit_char d = ''0123456789'' ! nat d"

definition digit_val :: "char \<Rightarrow> int" where
  "digit_val c = int (length (takeWhile (\<lambda>x. x \<noteq> c) ''0123456789''))"

definition zfill2 :: "int \<Rightarrow> string" where
  "zfill2 n = [digit_char (n div 10 mod 10), digit_char (n mod 10)]"

definition zfill4 :: "int \<Rightarrow> string" where
  "zfill4 n = [digit_char (n div 1000 mod 10), digit_char (n div 100 mod 10),
               digit_char (n div 10 mod 10), digit_char (n mod 10)]"

subsection \<open>The \<^verbatim>\<open>datetime\<close> values the constructor computes with\<close>

text \<open>
  \<^verbatim>\<open>strptime(..., '%Y%m%d%H')\<close> yields a \<^verbatim>\<open>datetime\<close> whose minute, second and
  microsecond are zero, and the constructor only ever adds whole hours and whole days to
  it, so a value is a calendar day and an hour. The day is kept as its proleptic
  Gregorian ordinal (\<^verbatim>\<open>toordinal()\<close>, day 1 is 0001-01-01), which is what
  \<^verbatim>\<open>datetime.__add__\<close> computes with; \<^verbatim>\<open>strftime\<close> goes back through
  \<open>ord2ymd\<close>.
\<close>

datatype error =
    ValueError string
  | OverflowError
  | Fatal string
  | NameError string
  | IndexError
  | ZeroDivisionError
  | InvalidIndexError
  | KeyError
  | AlignmentError

record datetime =
  ordinal :: int
  hour :: int

definition MAXORDINAL :: int where
  "MAXORDINAL = 3652059"

definition strptime_ymdh :: "int \<times> int \<times> int \<times> int \<Rightarrow> error + datetime" where
  "strptime_ymdh ymdh =
     (case ymdh of (y, m, d, h) \<Rightarrow>
        if 1 \<le> y \<and> y \<le> 9999 \<and> 1 \<le> m \<and> m \<le> 12 \<and> 1 \<le> d \<and> d \<le> days_in_month y m
           \<and> 0 \<le> h \<and> h \<le> 23
        then Inr \<lparr>ordinal = ymd2ord y m d, hour = h\<rparr>
        else Inl (ValueError ''time data does not match format %Y%m%d%H''))"

definition strftime_Ymd :: "datetime \<Rightarrow> string" where
  "strftime_Ymd t = (case ord2ymd (ordinal t) of (y, m, d) \<Rightarrow> zfill4 y @ zfill2 m @ zfill2 d)"

text \<open>A \<^verbatim>\<open>timedelta\<close> of whole hours, as its number of hours.\<close>

type_synonym timedelta = int

definition timedelta_hours :: "int \<Rightarrow> timedelta" where
  "timedelta_hours h = h"

definition timedelta_days :: "int \<Rightarrow> timedelta" where
  "timedelta_days d = 24 * d"

text \<open>\<^verbatim>\<open>datetime + timedelta\<close>: the sum is normalised into days and an hour of the day,
  and a day outside \<open>1..MAXORDINAL\<close> raises \<^verbatim>\<open>OverflowError\<close>.\<close>

definition dt_add :: "datetime \<Rightarrow> timedelta \<Rightarrow> error + datetime" where
  "dt_add t delta =
     (let total = ordinal t * 24 + hour t + delta;
          days = total div 24;
          hr = total mod 24
      in if 0 < days \<and> days \<le> MAXORDINAL then Inr \<lparr>ordinal = days, hour = hr\<rparr>
         else Inl OverflowError)"

text \<open>The instant as \<^verbatim>\<open>datetime64[ns]\<close> holds it: nanoseconds since 1970-01-01
  (ordinal 719163).\<close>

definition to_ns :: "datetime \<Rightarrow> int" where
  "to_ns t = ((ordinal t - 719163) * 24 + hour t) * 3600 * 1000000000"

text \<open>The calendar day a \<^verbatim>\<open>YYYYMMDD\<close> string names, as an ordinal: used to read the
  date of a discovered file name back.\<close>

definition digits_val :: "string \<Rightarrow> int" where
  "digits_val s = foldl (\<lambda>acc c. 10 * acc + digit_val c) 0 s"

definition ordinal_of_Ymd :: "string \<Rightarrow> int" where
  "ordinal_of_Ymd s =
     ymd2ord (digits_val (take 4 s)) (digits_val (take 2 (drop 4 s))) (digits_val (take 2 (drop 6 s)))"

subsection \<open>Configuration, files and datasets\<close>

text \<open>
  The configuration as the constructor reads it: \<open>start_ymdh\<close> holds the year, month,
  day and hour that \<^verbatim>\<open>strptime\<close> reads from the \<^verbatim>\<open>YYYYMMDDHH\<close> string; the other
  fields are the values after \<^verbatim>\<open>int(...)\<close> and \<^verbatim>\<open>getboolean\<close>.
\<close>

record config =
  start_ymdh :: "int \<times> int \<times> int \<times> int"
  forward_option :: int
  integration_length :: int
  input_era5_case :: string
  time_step :: int
  boundary_check :: bool

text \<open>A float is a number or not-a-number. Arithmetic on longitudes and on the sampling
  interval is exact (real numbers); rounding is outside the model.\<close>

datatype fval = NaN | Val real

text \<open>
  A loaded dataset: the time coordinate in nanoseconds, the three other coordinates, and
  the variables \<^verbatim>\<open>u\<close>, \<^verbatim>\<open>v\<close>, \<^verbatim>\<open>w\<close> as arrays indexed
  \<^verbatim>\<open>[time][isobaricInhPa][latitude][longitude]\<close>.
\<close>

type_synonym field = "fval list list list list"

record dataset =
  ds_time :: "int list"
  ds_isobaricInhPa :: "real list"
  ds_latitude :: "real list"
  ds_longitude :: "real list"
  ds_u :: field
  ds_v :: field
  ds_w :: field

text \<open>The file system: the dataset \<^verbatim>\<open>xr.load_dataset\<close> returns for a path, \<open>None\<close>
  where \<^verbatim>\<open>os.path.exists\<close> is false.\<close>

type_synonym filesystem = "string \<Rightarrow> dataset option"

definition print_prefix :: string where
  "print_prefix = ''lib.preprocess_era5inp>>''"

definition fn_suffix :: string where
  "fn_suffix = ''-pl.grib''"

text \<open>Modelled from the spec: \<^verbatim>\<open>utils.throw_error\<close> is not among the sources. The
  specification describes it as the single error-raising call that terminates the
  process: the call ends the construction with the message it was given.\<close>

definition throw_error :: "string \<Rightarrow> error + 'a" where
  "throw_error msg = Inl (Fatal msg)"

definition pres_path :: "string \<Rightarrow> datetime \<Rightarrow> string" where
  "pres_path input_dir t = input_dir @ ''/'' @ strftime_Ymd t @ fn_suffix"

definition cannot_locate :: "string \<Rightarrow> string" where
  "cannot_locate fn = print_prefix @ ''cannot locate:'' @ fn @ '', please check files or settings!''"

text \<open>The date of a file name built by \<open>pres_path\<close>, read back from the eight digits
  after the directory.\<close>

definition file_date :: "string \<Rightarrow> string \<Rightarrow> int" where
  "file_date input_dir fn = ordinal_of_Ymd (take 8 (drop (length input_dir + 1) fn))"

subsection \<open>File discovery and loading (lines 73 to 101)\<close>

text \<open>
  The \<^verbatim>\<open>while\<close> loop of lines 93 to 101. Its state is the cursor \<open>curr_t\<close> and the
  two lists it appends to. The loop has no bound of its own, so the function is partial:
  \<open>None\<close> is a run that never leaves the loop.
\<close>

partial_function (option) read_following ::
  "filesystem \<Rightarrow> string \<Rightarrow> timedelta \<Rightarrow> datetime \<Rightarrow> datetime \<Rightarrow> string list \<Rightarrow> dataset list
   \<Rightarrow> (error + string list \<times> dataset list) option"
where
  "read_following files input_dir fn_dt final_t curr_t nc_pres_files ds_grib =
     (if strftime_Ymd curr_t \<noteq> strftime_Ymd final_t then
        (case dt_add curr_t fn_dt of
           Inl e \<Rightarrow> Some (Inl e)
         | Inr curr_t' \<Rightarrow>
             (let fn = pres_path input_dir curr_t' in
              case files fn of
                None \<Rightarrow> Some (throw_error (cannot_locate fn))
              | Some ds \<Rightarrow>
                  read_following files input_dir fn_dt final_t curr_t'
                    (nc_pres_files @ [fn]) (ds_grib @ [ds])))
      else Some (Inr (nc_pres_files, ds_grib)))"

record discovery =
  d_strt_t :: datetime
  d_forward :: int
  d_final_t :: datetime
  d_nc_pres_files :: "string list"
  d_ds_grib :: "dataset list"

definition discover :: "filesystem \<Rightarrow> config \<Rightarrow> (error + discovery) option" where
  "discover files cfg =
     (case strptime_ymdh (start_ymdh cfg) of
        Inl e \<Rightarrow> Some (Inl e)
      | Inr strt_t \<Rightarrow>
          (let forward = forward_option cfg in
           case dt_add strt_t (timedelta_hours (forward * integration_length cfg)) of
             Inl e \<Rightarrow> Some (Inl e)
           | Inr final_t \<Rightarrow>
               (let input_dir = input_era5_case cfg;
                    fn = pres_path input_dir strt_t
                in case files fn of
                     None \<Rightarrow> Some (throw_error (cannot_locate fn))
                   | Some ds \<Rightarrow>
                       (case read_following files input_dir (timedelta_days (1 * forward))
                               final_t strt_t [fn] [ds] of
                          None \<Rightarrow> None
                        | Some (Inl e) \<Rightarrow> Some (Inl e)
                        | Some (Inr (nc_pres_files, ds_grib)) \<Rightarrow>
                            Some (Inr \<lparr>d_strt_t = strt_t, d_forward = forward, d_final_t = final_t,
                                       d_nc_pres_files = nc_pres_files, d_ds_grib = ds_grib\<rparr>)))))"


text \<open>The body of the loop run over a given list of cursor days, in order: the first
  missing file ends it. The loop is compared with this function below.\<close>

fun read_days ::
  "filesystem \<Rightarrow> string \<Rightarrow> int \<Rightarrow> int list \<Rightarrow> string list \<Rightarrow> dataset list
   \<Rightarrow> error + string list \<times> dataset list"
where
  "read_days files input_dir h [] nc_pres_files ds_grib = Inr (nc_pres_files, ds_grib)"
| "read_days files input_dir h (n # ns) nc_pres_files ds_grib =
     (let fn = pres_path input_dir \<lparr>ordinal = n, hour = h\<rparr> in
      case files fn of
        None \<Rightarrow> throw_error (cannot_locate fn)
      | Some ds \<Rightarrow> read_days files input_dir h ns (nc_pres_files @ [fn]) (ds_grib @ [ds]))"

text \<open>The days a walk of \<open>k\<close> steps visits after its start day \<open>n\<close>, stepping by
  \<open>step\<close> days.\<close>

definition walk_days :: "int \<Rightarrow> int \<Rightarrow> nat \<Rightarrow> int list" where
  "walk_days n step k = map (\<lambda>i. n + step * int i) [1..<Suc k]"

text \<open>The file name of a calendar day: \<open>pres_path\<close> reads only the day of its
  argument.\<close>

definition day_path :: "string \<Rightarrow> int \<Rightarrow> string" where
  "day_path input_dir n = pres_path input_dir \<lparr>ordinal = n, hour = 0\<rparr>"

subsection \<open>Orientation and concatenation (lines 103 to 114)\<close>

text \<open>
  Lines 103 to 112 reverse the loaded list for a backward run and bind the slice bounds;
  for a direction that is neither \<open>-1\<close> nor \<open>1\<close> neither branch runs and
  \<^verbatim>\<open>slice_start\<close>, \<^verbatim>\<open>slice_end\<close> stay unbound (\<open>None\<close>).
\<close>

definition orient :: "discovery \<Rightarrow> dataset list \<times> (datetime \<times> datetime) option" where
  "orient d =
     (if d_forward d = -1 then (rev (d_ds_grib d), Some (d_final_t d, d_strt_t d))
      else if d_forward d = 1 then (d_ds_grib d, Some (d_strt_t d, d_final_t d))
      else (d_ds_grib d, None))"

definition same_grid :: "dataset \<Rightarrow> dataset \<Rightarrow> bool" where
  "same_grid a b =
     (ds_isobaricInhPa a = ds_isobaricInhPa b \<and> ds_latitude a = ds_latitude b
      \<and> ds_longitude a = ds_longitude b)"

text \<open>
  \<^verbatim>\<open>xr.concat(ds_grib, 'time')\<close> on datasets that share their grid chains the time
  coordinate and the variables in list order. On differing grids xarray aligns the
  coordinates first (an outer join that fills with not-a-number); that alignment is not
  modelled, \<open>AlignmentError\<close> marks it.
\<close>

definition concat_time :: "dataset list \<Rightarrow> error + dataset" where
  "concat_time dss =
     (case dss of
        [] \<Rightarrow> Inl (ValueError ''must supply at least one object to concatenate'')
      | d # rest \<Rightarrow>
          if list_all (same_grid d) rest
          then Inr \<lparr>ds_time = concat (map ds_time dss),
                    ds_isobaricInhPa = ds_isobaricInhPa d,
                    ds_latitude = ds_latitude d,
                    ds_longitude = ds_longitude d,
                    ds_u = concat (map ds_u dss),
                    ds_v = concat (map ds_v dss),
                    ds_w = concat (map ds_w dss)\<rparr>
          else Inl AlignmentError)"

subsection \<open>Longitude normalisation (lines 117 to 131)\<close>

definition nanmin :: "real list \<Rightarrow> real" where
  "nanmin xs = fold min (tl xs) (hd xs)"

definition index_of :: "'a list \<Rightarrow> 'a \<Rightarrow> nat" where
  "index_of xs x = length (takeWhile (\<lambda>y. y \<noteq> x) xs)"

text \<open>\<^verbatim>\<open>xr.where(lon < 0, lon + 360, lon)\<close> at one coordinate value.\<close>

definition where_negative :: "real \<Rightarrow> real" where
  "where_negative L = (if L < 0 then L + 360 else L)"

text \<open>Selecting positions \<open>idx\<close> along the last (longitude) axis of a variable.\<close>

definition take_lon :: "nat list \<Rightarrow> field \<Rightarrow> field" where
  "take_lon idx fld = map (map (map (\<lambda>row. map (\<lambda>i. row ! i) idx))) fld"

text \<open>
  \<^verbatim>\<open>np.nanmin\<close> of an empty coordinate raises \<^verbatim>\<open>ValueError\<close>. The selection
  \<^verbatim>\<open>.sel(longitude_adjusted=sorted(...))\<close> looks every sorted label up in the index
  of adjusted values, which pandas refuses on an index with repeated labels.
\<close>

definition lon_normalize :: "dataset \<Rightarrow> error + dataset" where
  "lon_normalize comb_ds =
     (let xlon = ds_longitude comb_ds in
      if xlon = [] then Inl (ValueError ''zero-size array to reduction operation'')
      else if nanmin xlon < 0 then
        (let longitude_adjusted = map where_negative xlon;
             labels = sort longitude_adjusted
         in if distinct longitude_adjusted then
              (let idx = map (index_of longitude_adjusted) labels
               in Inr (comb_ds\<lparr>ds_longitude := labels,
                                ds_u := take_lon idx (ds_u comb_ds),
                                ds_v := take_lon idx (ds_v comb_ds),
                                ds_w := take_lon idx (ds_w comb_ds)\<rparr>))
            else Inl InvalidIndexError)
      else Inr comb_ds)"

subsection \<open>Sampling interval, slice and validation (lines 133 to 156)\<close>

definition frame_interval :: "dataset \<Rightarrow> error + real" where
  "frame_interval comb_ds =
     (case ds_time comb_ds of
        t0 # t1 # rest \<Rightarrow> Inr (real_of_int (t1 - t0) / 1000000000)
      | _ \<Rightarrow> Inl IndexError)"

definition steps_per_frame :: "real \<Rightarrow> int \<Rightarrow> error + real" where
  "steps_per_frame drv_fld_dt time_step_minutes =
     (if time_step_minutes * 60 = 0 then Inl ZeroDivisionError
      else Inr (drv_fld_dt / real_of_int (time_step_minutes * 60)))"

record dataarray =
  da_time :: "int list"
  da_values :: field

text \<open>
  \<^verbatim>\<open>.loc[slice_start:slice_end, :, :]\<close>: a label slice of the time axis, both bounds
  included. It is modelled on a non-decreasing time axis, where it keeps the frames whose
  time lies between the bounds; on any other axis the model stops with \<open>KeyError\<close>.
\<close>

definition loc_slice :: "datetime \<Rightarrow> datetime \<Rightarrow> int list \<Rightarrow> field \<Rightarrow> error + dataarray" where
  "loc_slice slice_start slice_end ts fld =
     (if sorted ts then
        (let sel = filter (\<lambda>(t, x). to_ns slice_start \<le> t \<and> t \<le> to_ns slice_end) (zip ts fld)
         in Inr \<lparr>da_time = map fst sel, da_values = map snd sel\<rparr>)
      else Inl KeyError)"

record prepared =
  p_comb_ds :: dataset
  p_drv_fld_dt :: real
  p_step_per_inpf :: real
  p_U :: dataarray
  p_V :: dataarray
  p_W :: dataarray

definition prepare :: "config \<Rightarrow> discovery \<Rightarrow> error + prepared" where
  "prepare cfg d =
     (case orient d of (ds_grib, bounds) \<Rightarrow>
      case concat_time ds_grib of Inl e \<Rightarrow> Inl e | Inr comb_ds0 \<Rightarrow>
      case lon_normalize comb_ds0 of Inl e \<Rightarrow> Inl e | Inr comb_ds \<Rightarrow>
      case frame_interval comb_ds of Inl e \<Rightarrow> Inl e | Inr drv_fld_dt \<Rightarrow>
      case steps_per_frame drv_fld_dt (time_step cfg) of Inl e \<Rightarrow> Inl e | Inr step_per_inpf \<Rightarrow>
      case bounds of None \<Rightarrow> Inl (NameError ''slice_start'') | Some (slice_start, slice_end) \<Rightarrow>
      case loc_slice slice_start slice_end (ds_time comb_ds) (ds_u comb_ds) of Inl e \<Rightarrow> Inl e | Inr U \<Rightarrow>
      case loc_slice slice_start slice_end (ds_time comb_ds) (ds_v comb_ds) of Inl e \<Rightarrow> Inl e | Inr V \<Rightarrow>
      case loc_slice slice_start slice_end (ds_time comb_ds) (ds_w comb_ds) of Inl e \<Rightarrow> Inl e | Inr W \<Rightarrow>
        Inr \<lparr>p_comb_ds = comb_ds, p_drv_fld_dt = drv_fld_dt, p_step_per_inpf = step_per_inpf,
             p_U = U, p_V = V, p_W = W\<rparr>)"

definition isnan :: "fval \<Rightarrow> bool" where
  "isnan x = (case x of NaN \<Rightarrow> True | Val r \<Rightarrow> False)"

definition any_isnan :: "dataarray \<Rightarrow> bool" where
  "any_isnan a = list_ex (list_ex (list_ex (list_ex isnan))) (da_values a)"

definition found_nan :: string where
  "found_nan = print_prefix @
     ''found NAN in combined data set, please check the download domains for all variables are identical.''"

record era5_acc_fields =
  strt_t :: datetime
  forward :: int
  final_t :: datetime
  nc_pres_files :: "string list"
  drv_fld_dt :: real
  step_per_inpf :: real
  U :: dataarray
  V :: dataarray
  W :: dataarray
  xlat :: "real list"
  xlon :: "real list"
  xz :: "real list"
  inp_nfrm :: nat

text \<open>
  Lines 140 to 156. With the boundary-check flag set, line 152 reads the name
  \<^verbatim>\<open>fn_timestamp\<close>, which nothing in the module or the constructor binds.
\<close>

definition finish :: "config \<Rightarrow> discovery \<Rightarrow> prepared \<Rightarrow> error + era5_acc_fields" where
  "finish cfg d p =
     (if any_isnan (p_U p) \<or> any_isnan (p_V p) \<or> any_isnan (p_W p)
      then throw_error found_nan
      else if boundary_check cfg then Inl (NameError ''fn_timestamp'')
      else Inr \<lparr>strt_t = d_strt_t d, forward = d_forward d, final_t = d_final_t d,
                nc_pres_files = d_nc_pres_files d,
                drv_fld_dt = p_drv_fld_dt p, step_per_inpf = p_step_per_inpf p,
                U = p_U p, V = p_V p, W = p_W p,
                xlat = ds_latitude (p_comb_ds p), xlon = ds_longitude (p_comb_ds p),
                xz = ds_isobaricInhPa (p_comb_ds p),
                inp_nfrm = length (da_time (p_U p))\<rparr>)"

text \<open>The constructor \<^verbatim>\<open>era5_acc_fields.__init__\<close>.\<close>

definition construct :: "filesystem \<Rightarrow> config \<Rightarrow> (error + era5_acc_fields) option" where
  "construct files cfg =
     (case discover files cfg of
        None \<Rightarrow> None
      | Some (Inl e) \<Rightarrow> Some (Inl e)
      | Some (Inr d) \<Rightarrow>
          (case prepare cfg d of
             Inl e \<Rightarrow> Some (Inl e)
           | Inr p \<Rightarrow> Some (finish cfg d p)))"

subsection \<open>Shapes and positions, for stating the properties\<close>



text \<open>The value of an array at the position (time \<open>i\<close>, level \<open>j\<close>, latitude \<open>k\<close>,
  longitude \<open>l\<close>) is not-a-number.\<close>

definition nan_at :: "dataarray \<Rightarrow> nat \<Rightarrow> nat \<Rightarrow> nat \<Rightarrow> nat \<Rightarrow> bool" where
  "nan_at a i j k l =
     (i < length (da_values a) \<and> j < length (da_values a ! i)
      \<and> k < length (da_values a ! i ! j) \<and> l < length (da_values a ! i ! j ! k)
      \<and> da_values a ! i ! j ! k ! l = NaN)"


text \<open>The file of day \<open>n\<close>, where it exists, holds strictly increasing times of that
  day.\<close>

definition day_start :: "int \<Rightarrow> int" where
  "day_start n = to_ns \<lparr>ordinal = n, hour = 0\<rparr>"

definition holds_its_day :: "filesystem \<Rightarrow> string \<Rightarrow> int \<Rightarrow> bool" where
  "holds_its_day files input_dir n =
     (case files (day_path input_dir n) of
        None \<Rightarrow> True
      | Some ds \<Rightarrow> sorted_wrt (<) (ds_time ds)
                   \<and> list_all (\<lambda>t. day_start n \<le> t \<and> t < day_start (n + 1)) (ds_time ds))"

subsection \<open>Example inputs\<close>

text \<open>
  A day's file as the examples below use it: four frames (00, 06, 12 and 18 UTC of the
  day with ordinal \<open>n\<close>) on one pressure level, one latitude and the four longitudes
  \<open>-180, -90, 0, 90\<close>; each value of \<open>u\<close> is the longitude it was taken at.
\<close>

definition frame_times :: "int \<Rightarrow> int list \<Rightarrow> int list" where
  "frame_times n hs = map (\<lambda>h. to_ns \<lparr>ordinal = n, hour = h\<rparr>) hs"

definition u_frame :: "fval list list list" where
  "u_frame = [[[Val (-180), Val (-90), Val 0, Val 90]]]"

definition v_frame :: "fval list list list" where
  "v_frame = [[[Val 1, Val 2, Val 3, Val 4]]]"

definition w_frame :: "fval list list list" where
  "w_frame = [[[Val 0, Val 0, Val 0, Val 0]]]"

definition day_dataset :: "int \<Rightarrow> dataset" where
  "day_dataset n =
     \<lparr>ds_time = frame_times n [0, 6, 12, 18],
      ds_isobaricInhPa = [500],
      ds_latitude = [0],
      ds_longitude = [-180, -90, 0, 90],
      ds_u = [u_frame, u_frame, u_frame, u_frame],
      ds_v = [v_frame, v_frame, v_frame, v_frame],
      ds_w = [w_frame, w_frame, w_frame, w_frame]\<rparr>"

text \<open>A directory \<^verbatim>\<open>/era5\<close> that holds such a file for every day.\<close>

definition era5_store :: filesystem where
  "era5_store fn = Some (day_dataset (file_date ''/era5'' fn))"

text \<open>The same directory with the file of day \<open>m\<close> absent.\<close>

definition era5_store_without :: "int \<Rightarrow> filesystem" where
  "era5_store_without m fn = (if file_date ''/era5'' fn = m then None else era5_store fn)"

text \<open>The same directory where the file of day \<open>m\<close> has one not-a-number: in \<open>w\<close>,
  at 12 UTC and longitude \<open>-90\<close>.\<close>

definition w_nan :: "fval list list list" where
  "w_nan = [[[Val 0, NaN, Val 0, Val 0]]]"

definition nan_dataset :: "int \<Rightarrow> dataset" where
  "nan_dataset m = (day_dataset m)\<lparr>ds_w := [w_frame, w_frame, w_nan, w_frame]\<rparr>"

definition era5_store_nan :: "int \<Rightarrow> filesystem" where
  "era5_store_nan m fn = (if file_date ''/era5'' fn = m then Some (nan_dataset m) else era5_store fn)"

text \<open>The two end-to-end runs of the specification: 30 hours from 2020-01-01 00 UTC,
  forward and backward, with a 30 minute step.\<close>

definition run_forward :: config where
  "run_forward = \<lparr>start_ymdh = (2020, 1, 1, 0), forward_option = 1, integration_length = 30,
                   input_era5_case = ''/era5'', time_step = 30, boundary_check = False\<rparr>"

definition run_backward :: config where
  "run_backward = run_forward\<lparr>forward_option := -1\<rparr>"

text \<open>What discovery finds for the two runs.\<close>

definition found_forward :: discovery where
  "found_forward =
     \<lparr>d_strt_t = \<lparr>ordinal = 737425, hour = 0\<rparr>, d_forward = 1,
      d_final_t = \<lparr>ordinal = 737426, hour = 6\<rparr>,
      d_nc_pres_files = [''/era5/20200101-pl.grib'', ''/era5/20200102-pl.grib''],
      d_ds_grib = [day_dataset 737425, day_dataset 737426]\<rparr>"

definition found_backward :: discovery where
  "found_backward =
     \<lparr>d_strt_t = \<lparr>ordinal = 737425, hour = 0\<rparr>, d_forward = -1,
      d_final_t = \<lparr>ordinal = 737423, hour = 18\<rparr>,
      d_nc_pres_files = [''/era5/20200101-pl.grib'', ''/era5/20191231-pl.grib'', ''/era5/20191230-pl.grib''],
      d_ds_grib = [day_dataset 737425, day_dataset 737424, day_dataset 737423]\<rparr>"

text \<open>A run whose direction is \<open>2\<close>: twelve hours, so that the final time is one day
  after the start.\<close>

definition run_skip :: config where
  "run_skip = run_forward\<lparr>forward_option := 2, integration_length := 12\<rparr>"

text \<open>The frames of the example files after longitude normalisation (longitudes
  \<open>0, 90, 180, 270\<close>), and what the forward run has before its validation.\<close>

definition u_sorted :: "fval list list list" where
  "u_sorted = [[[Val 0, Val 90, Val (-180), Val (-90)]]]"

definition v_sorted :: "fval list list list" where
  "v_sorted = [[[Val 3, Val 4, Val 1, Val 2]]]"

definition prepared_forward :: prepared where
  "prepared_forward =
     \<lparr>p_comb_ds =
        \<lparr>ds_time = frame_times 737425 [0, 6, 12, 18] @ frame_times 737426 [0, 6, 12, 18],
         ds_isobaricInhPa = [500],
         ds_latitude = [0],
         ds_longitude = [0, 90, 180, 270],
         ds_u = [u_sorted, u_sorted, u_sorted, u_sorted, u_sorted, u_sorted, u_sorted, u_sorted],
         ds_v = [v_sorted, v_sorted, v_sorted, v_sorted, v_sorted, v_sorted, v_sorted, v_sorted],
         ds_w = [w_frame, w_frame, w_frame, w_frame, w_frame, w_frame, w_frame, w_frame]\<rparr>,
      p_drv_fld_dt = 21600,
      p_step_per_inpf = 12,
      p_U = \<lparr>da_time = frame_times 737425 [0, 6, 12, 18] @ frame_times 737426 [0, 6],
             da_values = [u_sorted, u_sorted, u_sorted, u_sorted, u_sorted, u_sorted]\<rparr>,
      p_V = \<lparr>da_time = frame_times 737425 [0, 6, 12, 18] @ frame_times 737426 [0, 6],
             da_values = [v_sorted, v_sorted, v_sorted, v_sorted, v_sorted, v_sorted]\<rparr>,
      p_W = \<lparr>da_time = frame_times 737425 [0, 6, 12, 18] @ frame_times 737426 [0, 6],
             da_values = [w_frame, w_frame, w_frame, w_frame, w_frame, w_frame]\<rparr>\<rparr>"

text \<open>The object the forward run constructs.\<close>

definition built_forward :: era5_acc_fields where
  "built_forward =
     \<lparr>strt_t = \<lparr>ordinal = 737425, hour = 0\<rparr>, forward = 1,
      final_t = \<lparr>ordinal = 737426, hour = 6\<rparr>,
      nc_pres_files = [''/era5/20200101-pl.grib'', ''/era5/20200102-pl.grib''],
      drv_fld_dt = 21600, step_per_inpf = 12,
      U = p_U prepared_forward, V = p_V prepared_forward, W = p_W prepared_forward,
      xlat = [0], xlon = [0, 90, 180, 270], xz = [500],
      inp_nfrm = 6\<rparr>"

text \<open>The forward run on the directory whose file of 2020-01-01 has the not-a-number:
  what discovery finds and what the run has before its validation.\<close>

definition w_nan_sorted :: "fval list list list" where
  "w_nan_sorted = [[[Val 0, Val 0, Val 0, NaN]]]"

definition found_nan_forward :: discovery where
  "found_nan_forward = found_forward\<lparr>d_ds_grib := [nan_dataset 737425, day_dataset 737426]\<rparr>"

definition prepared_nan_forward :: prepared where
  "prepared_nan_forward =
     prepared_forward
       \<lparr>p_comb_ds := (p_comb_ds prepared_forward)
           \<lparr>ds_w := [w_frame, w_frame, w_nan_sorted, w_frame, w_frame, w_frame, w_frame, w_frame]\<rparr>,
        p_W := \<lparr>da_time = frame_times 737425 [0, 6, 12, 18] @ frame_times 737426 [0, 6],
                da_values = [w_frame, w_frame, w_nan_sorted, w_frame, w_frame, w_frame]\<rparr>\<rparr>"

text \<open>The forward run over the days of the backward run: 30 hours from 2019-12-30
  18 UTC.\<close>

definition run_forward_span :: config where
  "run_forward_span = run_forward\<lparr>start_ymdh := (2019, 12, 30, 18)\<rparr>"

definition found_forward_span :: discovery where
  "found_forward_span =
     \<lparr>d_strt_t = \<lparr>ordinal = 737423, hour = 18\<rparr>, d_forward = 1,
      d_final_t = \<lparr>ordinal = 737425, hour = 0\<rparr>,
      d_nc_pres_files = [''/era5/20191230-pl.grib'', ''/era5/20191231-pl.grib'', ''/era5/20200101-pl.grib''],
      d_ds_grib = [day_dataset 737423, day_dataset 737424, day_dataset 737425]\<rparr>"






section \<open>Properties\<close>

subsection \<open>Calendar and formatting\<close>

lemma nth_DBM:
  "DAYS_BEFORE_MONTH ! 1 = 0" "DAYS_BEFORE_MONTH ! 2 = 31" "DAYS_BEFORE_MONTH ! 3 = 59"
  "DAYS_BEFORE_MONTH ! 4 = 90" "DAYS_BEFORE_MONTH ! 5 = 120" "DAYS_BEFORE_MONTH ! 6 = 151"
  "DAYS_BEFORE_MONTH ! 7 = 181" "DAYS_BEFORE_MONTH ! 8 = 212" "DAYS_BEFORE_MONTH ! 9 = 243"
  "DAYS_BEFORE_MONTH ! 10 = 273" "DAYS_BEFORE_MONTH ! 11 = 304" "DAYS_BEFORE_MONTH ! 12 = 334"
  "DAYS_BEFORE_MONTH ! 0 = -1" "DAYS_BEFORE_MONTH ! Suc 0 = 0"
  by (simp_all add: DAYS_BEFORE_MONTH_def)

lemma nth_DIM:
  "DAYS_IN_MONTH ! 1 = 31" "DAYS_IN_MONTH ! 2 = 28" "DAYS_IN_MONTH ! 3 = 31"
  "DAYS_IN_MONTH ! 4 = 30" "DAYS_IN_MONTH ! 5 = 31" "DAYS_IN_MONTH ! 6 = 30"
  "DAYS_IN_MONTH ! 7 = 31" "DAYS_IN_MONTH ! 8 = 31" "DAYS_IN_MONTH ! 9 = 30"
  "DAYS_IN_MONTH ! 10 = 31" "DAYS_IN_MONTH ! 11 = 30" "DAYS_IN_MONTH ! 12 = 31"
  "DAYS_IN_MONTH ! 0 = -1" "DAYS_IN_MONTH ! Suc 0 = 31"
  by (simp_all add: DAYS_IN_MONTH_def)

lemma month_day_ok:
  assumes "0 \<le> n" "n < 365"
  shows "case month_day lp n of (m, d) \<Rightarrow>
           1 \<le> m \<and> m \<le> 12 \<and> 1 \<le> d \<and>
           d \<le> DAYS_IN_MONTH ! nat m + (if m = 2 \<and> lp then 1 else 0) \<and>
           DAYS_BEFORE_MONTH ! nat m + (if m > 2 \<and> lp then 1 else 0) + d = n + 1"
proof -
  define m where "m = (n + 50) div 32"
  have "1 \<le> m" "m \<le> 12" using assms unfolding m_def by linarith+
  then have "m = 1 \<or> m = 2 \<or> m = 3 \<or> m = 4 \<or> m = 5 \<or> m = 6 \<or> m = 7 \<or> m = 8 \<or> m = 9 \<or> m = 10 \<or> m = 11 \<or> m = 12"
    by presburger
  moreover have "32 * m \<le> n + 50" "n + 50 < 32 * m + 32" unfolding m_def by linarith+
  ultimately show ?thesis
    using assms
    unfolding month_day_def Let_def m_def[symmetric]
    by (elim disjE) (simp_all add: nth_DBM nth_DIM)
qed

lemma div_eqI: "(x::int) = k * q + r \<Longrightarrow> 0 \<le> r \<Longrightarrow> r < k \<Longrightarrow> x div k = q"
  by (simp add: div_pos_pos_trivial)

lemma mod_eqI: "(x::int) = k * q + r \<Longrightarrow> 0 \<le> r \<Longrightarrow> r < k \<Longrightarrow> x mod k = r"
  by (simp add: mod_pos_pos_trivial)

lemma ord2ymd_ok:
  assumes "1 \<le> n"
  shows "case ord2ymd n of (y, m, d) \<Rightarrow>
           ymd2ord y m d = n \<and> 1 \<le> y \<and> (if n \<le> 3652059 then y \<le> 9999 else True) \<and> 1 \<le> m \<and> m \<le> 12 \<and> 1 \<le> d \<and> d \<le> days_in_month y m"
proof -
  define n0 where "n0 = n - 1"
  define a where "a = n0 div 146097"
  define r1 where "r1 = n0 mod 146097"
  define b where "b = r1 div 36524"
  define r2 where "r2 = r1 mod 36524"
  define c where "c = r2 div 1461"
  define r3 where "r3 = r2 mod 1461"
  define d where "d = r3 div 365"
  define r4 where "r4 = r3 mod 365"
  have n0: "n0 = 146097 * a + r1" "0 \<le> r1" "r1 < 146097" "0 \<le> a"
    using assms unfolding a_def r1_def n0_def by (simp_all add: pos_imp_zdiv_nonneg_iff)
  have r1: "r1 = 36524 * b + r2" "0 \<le> r2" "r2 < 36524" "0 \<le> b"
    using n0 unfolding b_def r2_def by (simp_all add: pos_imp_zdiv_nonneg_iff)
  have b4: "b \<le> 4" using r1 n0 by linarith
  have r2: "r2 = 1461 * c + r3" "0 \<le> r3" "r3 < 1461" "0 \<le> c"
    using r1 unfolding c_def r3_def by (simp_all add: pos_imp_zdiv_nonneg_iff)
  have c24: "c \<le> 24" using r2 r1 by linarith
  have r3: "r3 = 365 * d + r4" "0 \<le> r4" "r4 < 365" "0 \<le> d"
    using r2 unfolding d_def r4_def by (simp_all add: pos_imp_zdiv_nonneg_iff)
  have d4: "d \<le> 4" using r3 r2 by linarith
  have n_eq: "n = 146097 * a + 36524 * b + 1461 * c + 365 * d + r4 + 1"
    using n0 r1 r2 r3 unfolding n0_def by linarith
  define y1 where "y1 = 400 * a + 100 * b + 4 * c + d"
  have o: "ord2ymd n = (if d = 4 \<or> b = 4 then (y1, 12, 31)
            else (case month_day (d = 3 \<and> (c \<noteq> 24 \<or> b = 3)) r4 of (month, day) \<Rightarrow> (y1 + 1, month, day)))"
    unfolding ord2ymd_def Let_def y1_def a_def r1_def b_def r2_def c_def r3_def d_def r4_def n0_def
    by (simp add: algebra_simps)
  have dby: "days_before_year (y1 + 1) = 365 * y1 + y1 div 4 - y1 div 100 + y1 div 400"
    by (simp add: days_before_year_def Let_def)
  show ?thesis
  proof (cases "b = 4")
    case True
    then have z: "r2 = 0" "c = 0" "r3 = 0" "d = 0" "r4 = 0"
      using n0 r1 r2 r3 by linarith+
    have y: "y1 = 400 * (a + 1)" using True z by (simp add: y1_def)
    have "y1 mod 4 = 0" "y1 mod 400 = 0" unfolding y by simp_all
    then have l: "is_leap y1" unfolding is_leap_def by simp
    have "(y1 - 1) div 4 = 100 * a + 99" "(y1 - 1) div 100 = 4 * a + 3" "(y1 - 1) div 400 = a"
      unfolding y by (rule div_eqI[where r = 3], simp, simp, simp)
        (rule div_eqI[where r = 99], simp, simp, simp, rule div_eqI[where r = 399], simp, simp, simp)
    then have "days_before_year y1 = 146097 * a + 145731"
      unfolding days_before_year_def Let_def using y by simp
    then have "ymd2ord y1 12 31 = n"
      using l n_eq True z by (simp add: ymd2ord_def days_before_month_def nth_DBM)
    moreover have "1 \<le> y1" using n0(4) by (simp add: y)
    moreover have "y1 \<le> 9999" if "n \<le> 3652059"
    proof -
      have "a \<le> 23" using that n_eq True z by linarith
      then show ?thesis unfolding y by simp
    qed
    ultimately show ?thesis using True by (simp add: o days_in_month_def nth_DIM)
  next
    case b: False
    then have b3: "b \<le> 3" using b4 by linarith
    show ?thesis
    proof (cases "d = 4")
      case True
      then have z: "r4 = 0" using r2 r3 by linarith
      have c23: "c \<le> 23" using True r1 r2 r3 by linarith
      have y: "y1 = 400 * a + 100 * b + 4 * c + 4" using True by (simp add: y1_def)
      have "y1 mod 4 = 0"
        by (rule mod_eqI[where q = "100 * a + 25 * b + c + 1"]) (simp_all add: y)
      moreover have "y1 mod 100 = 4 * c + 4"
        by (rule mod_eqI[where q = "4 * a + b"]) (use r2 c23 in \<open>simp_all add: y\<close>)
      ultimately have l: "is_leap y1" unfolding is_leap_def using r2 by simp
      have "(y1 - 1) div 4 = 100 * a + 25 * b + c"
        by (rule div_eqI[where r = 3]) (simp_all add: y)
      moreover have "(y1 - 1) div 100 = 4 * a + b"
        by (rule div_eqI[where r = "4 * c + 3"]) (use r2 c23 in \<open>simp_all add: y\<close>)
      moreover have "(y1 - 1) div 400 = a"
        by (rule div_eqI[where r = "100 * b + 4 * c + 3"]) (use r1 r2 b3 c23 in \<open>simp_all add: y\<close>)
      ultimately have "days_before_year y1 = 146097 * a + 36524 * b + 1461 * c + 1095"
        unfolding days_before_year_def Let_def using y by simp
      then have "ymd2ord y1 12 31 = n"
        using l n_eq True z by (simp add: ymd2ord_def days_before_month_def nth_DBM)
      moreover have "1 \<le> y1" using n0(4) r1(4) r2(4) by (simp add: y)
      moreover have "y1 \<le> 9999" if "n \<le> 3652059"
      proof -
        have "a \<le> 24" using that n_eq r1 r2 r3 by linarith
        then show ?thesis using that n_eq b3 c23 r1 r2 r3 True unfolding y
          by (cases "a = 24"; cases "b = 3") linarith+
      qed
      ultimately show ?thesis using True by (simp add: o days_in_month_def nth_DIM)
    next
      case False
      then have d3: "d \<le> 3" using d4 by linarith
      define lp where "lp = (d = 3 \<and> (c \<noteq> 24 \<or> b = 3))"
      have m4: "(y1 + 1) mod 4 = (if d = 3 then 0 else d + 1)"
      proof (cases "d = 3")
        case True
        show ?thesis
          by (rule mod_eqI[where q = "100 * a + 25 * b + c + 1"]) (simp_all add: y1_def True)
      next
        case False
        show ?thesis
          by (rule mod_eqI[where q = "100 * a + 25 * b + c"]) (use False r3 d3 in \<open>simp_all add: y1_def\<close>)
      qed
      have m100: "(y1 + 1) mod 100 = (if c = 24 \<and> d = 3 then 0 else 4 * c + d + 1)"
      proof (cases "c = 24 \<and> d = 3")
        case True
        show ?thesis
          by (rule mod_eqI[where q = "4 * a + b + 1"]) (simp_all add: y1_def True)
      next
        case False
        then have "4 * c + d + 1 < 100" using c24 d3 by linarith
        then show ?thesis
          by (intro mod_eqI[where q = "4 * a + b"]) (use False r2 r3 in \<open>simp_all add: y1_def\<close>)
      qed
      have m400: "(y1 + 1) mod 400 = (if b = 3 \<and> c = 24 \<and> d = 3 then 0 else 100 * b + 4 * c + d + 1)"
      proof (cases "b = 3 \<and> c = 24 \<and> d = 3")
        case True
        show ?thesis
          by (rule mod_eqI[where q = "a + 1"]) (simp_all add: y1_def True)
      next
        case False
        then have "100 * b + 4 * c + d + 1 < 400" using b3 c24 d3 by linarith
        then show ?thesis
          by (intro mod_eqI[where q = "a"]) (use False r1 r2 r3 in \<open>simp_all add: y1_def\<close>)
      qed
      have l: "is_leap (y1 + 1) = lp"
        unfolding lp_def is_leap_def m4 m100 m400 using r1 r2 r3 by auto
      have "y1 div 4 = 100 * a + 25 * b + c"
        by (rule div_eqI[where r = d]) (use r3 d3 in \<open>simp_all add: y1_def\<close>)
      moreover have "y1 div 100 = 4 * a + b"
        by (rule div_eqI[where r = "4 * c + d"]) (use r2 r3 c24 d3 in \<open>simp_all add: y1_def\<close>)
      moreover have "y1 div 400 = a"
        by (rule div_eqI[where r = "100 * b + 4 * c + d"]) (use r1 r2 r3 b3 c24 d3 in \<open>simp_all add: y1_def\<close>)
      ultimately have dby': "days_before_year (y1 + 1) = 146097 * a + 36524 * b + 1461 * c + 365 * d"
        unfolding dby by (simp add: y1_def)
      obtain m dd where md: "month_day lp r4 = (m, dd)" by (cases "month_day lp r4")
      from month_day_ok[OF r3(2) r3(3), of lp] md
      have k: "1 \<le> m" "m \<le> 12" "1 \<le> dd"
        "dd \<le> DAYS_IN_MONTH ! nat m + (if m = 2 \<and> lp then 1 else 0)"
        "DAYS_BEFORE_MONTH ! nat m + (if m > 2 \<and> lp then 1 else 0) + dd = r4 + 1"
        by simp_all
      have "ymd2ord (y1 + 1) m dd = n"
        using k(5) n_eq dby' l by (simp add: ymd2ord_def days_before_month_def)
      moreover have "dd \<le> days_in_month (y1 + 1) m"
        using k(4) l by (auto simp: days_in_month_def nth_DIM split: if_splits)
      moreover have "1 \<le> y1 + 1" using n0(4) r1(4) r2(4) r3(4) by (simp add: y1_def)
      moreover have "y1 + 1 \<le> 9999" if "n \<le> 3652059"
      proof -
        have "a \<le> 24" using that n_eq r1 r2 r3 by linarith
        then show ?thesis using that n_eq b3 c24 d3 r1 r2 r3 unfolding y1_def
          by (cases "a = 24"; cases "b = 3"; cases "c = 24") linarith+
      qed
      ultimately show ?thesis using False b k md by (simp add: o lp_def)
    qed
  qed
qed

lemma digit_val_char: "0 \<le> d \<Longrightarrow> d \<le> 9 \<Longrightarrow> digit_val (digit_char d) = d"
proof -
  assume "0 \<le> d" "d \<le> 9"
  then have "d = 0 \<or> d = 1 \<or> d = 2 \<or> d = 3 \<or> d = 4 \<or> d = 5 \<or> d = 6 \<or> d = 7 \<or> d = 8 \<or> d = 9"
    by presburger
  then show ?thesis
    by (elim disjE) (simp_all add: digit_val_def digit_char_def)
qed

lemma digit_val_mod: "digit_val (digit_char (k mod 10)) = k mod 10"
  by (rule digit_val_char) simp_all

lemma zfill2_val:
  assumes "0 \<le> z" "z \<le> 99"
  shows "digits_val (zfill2 z) = z"
proof -
  have "z div 10 mod 10 = z div 10" using assms by simp
  then have "10 * (z div 10 mod 10) + z mod 10 = z" by simp
  then show ?thesis
    by (simp only: zfill2_def digits_val_def digit_val_mod foldl.simps mult_zero_right add_0)
qed

lemma zfill4_val:
  assumes "0 \<le> z" "z \<le> 9999"
  shows "digits_val (zfill4 z) = z"
proof -
  have e: "z = 10 * (z div 10) + z mod 10" "z div 10 = 10 * (z div 10 div 10) + z div 10 mod 10"
    "z div 10 div 10 = 10 * (z div 10 div 10 div 10) + z div 10 div 10 mod 10"
    by simp_all
  have f: "z div 100 = z div 10 div 10" "z div 1000 = z div 10 div 10 div 10"
    by (simp_all add: zdiv_zmult2_eq)
  have g: "0 \<le> z div 10 div 10 div 10" "z div 10 div 10 div 10 \<le> 9" using assms by linarith+
  then have h: "z div 10 div 10 div 10 mod 10 = z div 10 div 10 div 10" by simp
  have "1000 * (z div 1000 mod 10) + 100 * (z div 100 mod 10) + 10 * (z div 10 mod 10) + z mod 10 = z"
    unfolding f h using e by linarith
  moreover have "10 * (10 * (10 * a + b) + c) + d = 1000 * a + 100 * b + 10 * c + d" for a b c d :: int
    by simp
  ultimately have "10 * (10 * (10 * (z div 1000 mod 10) + z div 100 mod 10) + z div 10 mod 10) + z mod 10 = z"
    by (simp only:)
  then show ?thesis
    by (simp only: zfill4_def digits_val_def digit_val_mod foldl.simps mult_zero_right add_0)
qed

lemma length_zfill [simp]: "length (zfill4 y) = 4" "length (zfill2 m) = 2"
  by (simp_all add: zfill4_def zfill2_def)

subsection \<open>Dates, date strings and date arithmetic\<close>

text \<open>
  The two conversions are inverse to each other on the dates of the calendar
  (\<open>ord2ymd_ok\<close>, \<open>ord2ymd_ymd2ord\<close>), so keeping a date as its ordinal loses
  nothing: the date string of a parsed date shows the year, month and day that were
  parsed (\<open>strftime_strptime\<close>), and two dates in range have the same date string
  exactly when they are the same day (\<open>strftime_eq_iff\<close>).
\<close>

lemma days_in_month_le:
  assumes "1 \<le> m" "m \<le> 12"
  shows "days_in_month y m \<le> 31"
proof -
  have "m = 1 \<or> m = 2 \<or> m = 3 \<or> m = 4 \<or> m = 5 \<or> m = 6 \<or> m = 7 \<or> m = 8 \<or> m = 9 \<or> m = 10 \<or> m = 11 \<or> m = 12"
    using assms by presburger
  then show ?thesis
    by (elim disjE) (simp_all add: days_in_month_def nth_DIM)
qed

lemma ordinal_of_strftime:
  assumes "1 \<le> ordinal t" "ordinal t \<le> MAXORDINAL"
  shows "ordinal_of_Ymd (strftime_Ymd t) = ordinal t"
proof -
  obtain y m d where o: "ord2ymd (ordinal t) = (y, m, d)" by (cases "ord2ymd (ordinal t)")
  from ord2ymd_ok[OF assms(1)] o assms(2)
  have k: "ymd2ord y m d = ordinal t" "1 \<le> y" "y \<le> 9999" "1 \<le> m" "m \<le> 12" "1 \<le> d"
    "d \<le> days_in_month y m"
    by (simp_all add: MAXORDINAL_def)
  have "days_in_month y m \<le> 31" using days_in_month_le[OF k(4,5)] .
  then have "d \<le> 31" using k(7) by linarith
  then have "digits_val (zfill4 y) = y" "digits_val (zfill2 m) = m" "digits_val (zfill2 d) = d"
    using k by (simp_all add: zfill4_val zfill2_val)
  then show ?thesis
    using k(1) by (simp add: ordinal_of_Ymd_def strftime_Ymd_def o)
qed

lemma strftime_eq_iff:
  assumes "1 \<le> ordinal a" "ordinal a \<le> MAXORDINAL" "1 \<le> ordinal b" "ordinal b \<le> MAXORDINAL"
  shows "strftime_Ymd a = strftime_Ymd b \<longleftrightarrow> ordinal a = ordinal b"
proof
  assume "strftime_Ymd a = strftime_Ymd b"
  then have "ordinal_of_Ymd (strftime_Ymd a) = ordinal_of_Ymd (strftime_Ymd b)" by simp
  then show "ordinal a = ordinal b"
    using assms by (simp add: ordinal_of_strftime)
next
  assume "ordinal a = ordinal b"
  then show "strftime_Ymd a = strftime_Ymd b" by (simp add: strftime_Ymd_def)
qed

lemma length_strftime [simp]: "length (strftime_Ymd t) = 8"
  by (simp add: strftime_Ymd_def split: prod.splits)

lemma file_date_pres_path:
  assumes "1 \<le> ordinal t" "ordinal t \<le> MAXORDINAL"
  shows "file_date input_dir (pres_path input_dir t) = ordinal t"
  using ordinal_of_strftime[OF assms] by (simp add: file_date_def pres_path_def)

lemma dt_add_days:
  assumes "0 \<le> hour t" "hour t < 24"
  shows "dt_add t (timedelta_days k) =
           (if 0 < ordinal t + k \<and> ordinal t + k \<le> MAXORDINAL
            then Inr \<lparr>ordinal = ordinal t + k, hour = hour t\<rparr> else Inl OverflowError)"
proof -
  have e: "ordinal t * 24 + hour t + 24 * k = 24 * (ordinal t + k) + hour t" by simp
  have "(ordinal t * 24 + hour t + 24 * k) div 24 = ordinal t + k"
    by (rule div_eqI[OF e assms])
  moreover have "(ordinal t * 24 + hour t + 24 * k) mod 24 = hour t"
    by (rule mod_eqI[OF e assms])
  ultimately show ?thesis by (simp only: dt_add_def timedelta_days_def Let_def)
qed

lemma dt_add_hours:
  assumes "dt_add t (timedelta_hours h) = Inr t'"
  shows "ordinal t' = ordinal t + (hour t + h) div 24" "hour t' = (hour t + h) mod 24"
    "1 \<le> ordinal t'" "ordinal t' \<le> MAXORDINAL" "0 \<le> hour t'" "hour t' < 24"
proof -
  define total where "total = ordinal t * 24 + hour t + h"
  have e: "total = 24 * (ordinal t + (hour t + h) div 24) + (hour t + h) mod 24"
    unfolding total_def by simp
  have d: "total div 24 = ordinal t + (hour t + h) div 24"
    by (rule div_eqI[OF e]) simp_all
  have m: "total mod 24 = (hour t + h) mod 24"
    by (rule mod_eqI[OF e]) simp_all
  have r: "0 < total div 24 \<and> total div 24 \<le> MAXORDINAL"
    and t': "t' = \<lparr>ordinal = total div 24, hour = total mod 24\<rparr>"
    using assms unfolding dt_add_def timedelta_hours_def Let_def total_def[symmetric]
    by (simp_all split: if_splits)
  show "ordinal t' = ordinal t + (hour t + h) div 24" "hour t' = (hour t + h) mod 24"
    "1 \<le> ordinal t'" "ordinal t' \<le> MAXORDINAL" "0 \<le> hour t'" "hour t' < 24"
    using r unfolding t' d m by simp_all
qed

lemma div_step:
  "0 < k \<Longrightarrow> (y::int) div k = (y - 1) div k + (if y mod k = 0 then 1 else 0)"
proof -
  assume k: "0 < k"
  define q where "q = y div k"
  define r where "r = y mod k"
  have y: "y = k * q + r" and r: "0 \<le> r" "r < k"
    using k by (simp_all add: q_def r_def)
  show ?thesis
  proof (cases "r = 0")
    case True
    have "y - 1 = k * (q - 1) + (k - 1)" using y True by (simp add: algebra_simps)
    then have "(y - 1) div k = q - 1" using k by (intro div_eqI[where r = "k - 1"]) simp_all
    then show ?thesis using True by (simp add: q_def r_def)
  next
    case False
    have "y - 1 = k * q + (r - 1)" using y by simp
    then have "(y - 1) div k = q" using r False by (intro div_eqI[where r = "r - 1"]) simp_all
    then show ?thesis using False by (simp add: q_def r_def)
  qed
qed

lemma days_before_year_Suc:
  "days_before_year (y + 1) = days_before_year y + 365 + (if is_leap y then 1 else 0)"
proof -
  have a: "y mod 4 = 0" if "y mod 100 = 0"
  proof -
    have "(4::int) dvd 100" by simp
    moreover have "100 dvd y" using that by (simp add: dvd_eq_mod_eq_0)
    ultimately have "4 dvd y" by (rule dvd_trans)
    then show ?thesis by (simp add: dvd_eq_mod_eq_0)
  qed
  have b: "y mod 100 = 0" if "y mod 400 = 0"
  proof -
    have "(100::int) dvd 400" by simp
    moreover have "400 dvd y" using that by (simp add: dvd_eq_mod_eq_0)
    ultimately have "100 dvd y" by (rule dvd_trans)
    then show ?thesis by (simp add: dvd_eq_mod_eq_0)
  qed
  define l4 where "l4 = (if y mod 4 = 0 then 1 else (0::int))"
  define l100 where "l100 = (if y mod 100 = 0 then 1 else (0::int))"
  define l400 where "l400 = (if y mod 400 = 0 then 1 else (0::int))"
  have d4: "y div 4 = (y - 1) div 4 + l4" unfolding l4_def by (rule div_step) simp
  have d100: "y div 100 = (y - 1) div 100 + l100" unfolding l100_def by (rule div_step) simp
  have d400: "y div 400 = (y - 1) div 400 + l400" unfolding l400_def by (rule div_step) simp
  have e1: "days_before_year (y + 1) = y * 365 + y div 4 - y div 100 + y div 400"
    by (simp add: days_before_year_def Let_def)
  have e2: "days_before_year y = y * 365 - 365 + (y - 1) div 4 - (y - 1) div 100 + (y - 1) div 400"
    by (simp add: days_before_year_def Let_def algebra_simps)
  have l: "(if is_leap y then 1 else (0::int)) = l4 - l100 + l400"
  proof (cases "y mod 4 = 0")
    case False
    then have n100: "y mod 100 \<noteq> 0" using a by fastforce
    then have "y mod 400 \<noteq> 0" using b by fastforce
    with False n100 show ?thesis by (simp add: is_leap_def l4_def l100_def l400_def)
  next
    case True
    show ?thesis
    proof (cases "y mod 400 = 0")
      case t: True
      then have "y mod 100 = 0" by (rule b)
      with True t show ?thesis by (simp add: is_leap_def l4_def l100_def l400_def)
    next
      case False
      with True show ?thesis by (simp add: is_leap_def l4_def l100_def l400_def)
    qed
  qed
  show ?thesis unfolding e1 e2 l using d4 d100 d400 by linarith
qed

lemma days_before_year_mono: "y \<le> y' \<Longrightarrow> days_before_year y \<le> days_before_year y'"
proof (induction y' rule: int_ge_induct)
  case base
  show ?case by simp
next
  case (step i)
  have "days_before_year i \<le> days_before_year (i + 1)"
    by (simp add: days_before_year_Suc)
  with step show ?case by linarith
qed

lemma days_before_month_day:
  assumes "1 \<le> m" "m \<le> 12" "1 \<le> d" "d \<le> days_in_month y m"
  shows "1 \<le> days_before_month y m + d"
    "days_before_month y m + d \<le> 365 + (if is_leap y then 1 else 0)"
proof -
  have "m = 1 \<or> m = 2 \<or> m = 3 \<or> m = 4 \<or> m = 5 \<or> m = 6 \<or> m = 7 \<or> m = 8 \<or> m = 9 \<or> m = 10 \<or> m = 11 \<or> m = 12"
    using assms by presburger
  then show "1 \<le> days_before_month y m + d"
    "days_before_month y m + d \<le> 365 + (if is_leap y then 1 else 0)"
    using assms(3,4)
    by (elim disjE; simp add: days_before_month_def days_in_month_def nth_DBM nth_DIM split: if_splits)+
qed

lemma ymd2ord_range:
  assumes "1 \<le> y" "y \<le> 9999" "1 \<le> m" "m \<le> 12" "1 \<le> d" "d \<le> days_in_month y m"
  shows "1 \<le> ymd2ord y m d" "ymd2ord y m d \<le> MAXORDINAL"
proof -
  have "days_before_year 1 \<le> days_before_year y" using assms(1) by (rule days_before_year_mono)
  then have lo: "0 \<le> days_before_year y" by (simp add: days_before_year_def)
  have "days_before_year (y + 1) \<le> days_before_year 10000"
    using assms(2) by (intro days_before_year_mono) simp
  moreover have "days_before_year 10000 = 3652059" by (simp add: days_before_year_def)
  ultimately have hi: "days_before_year y + 365 + (if is_leap y then 1 else 0) \<le> 3652059"
    unfolding days_before_year_Suc by linarith
  from days_before_month_day[OF assms(3-6)] lo hi
  show "1 \<le> ymd2ord y m d" "ymd2ord y m d \<le> MAXORDINAL"
    unfolding ymd2ord_def MAXORDINAL_def by linarith+
qed

lemma strptime_ymdh_valid:
  assumes "strptime_ymdh x = Inr s"
  shows "1 \<le> ordinal s" "ordinal s \<le> MAXORDINAL" "0 \<le> hour s" "hour s < 24"
proof -
  obtain y m d h where x: "x = (y, m, d, h)" by (cases x)
  from assms have v: "1 \<le> y" "y \<le> 9999" "1 \<le> m" "m \<le> 12" "1 \<le> d" "d \<le> days_in_month y m"
    "0 \<le> h" "h \<le> 23" and s: "s = \<lparr>ordinal = ymd2ord y m d, hour = h\<rparr>"
    unfolding x strptime_ymdh_def by (simp_all split: if_splits)
  show "1 \<le> ordinal s" "ordinal s \<le> MAXORDINAL" "0 \<le> hour s" "hour s < 24"
    using ymd2ord_range[OF v(1-6)] v(7,8) by (simp_all add: s)
qed

lemma days_before_month_Suc:
  assumes "1 \<le> m" "m \<le> 11"
  shows "days_before_month y (m + 1) = days_before_month y m + days_in_month y m"
proof -
  have "m = 1 \<or> m = 2 \<or> m = 3 \<or> m = 4 \<or> m = 5 \<or> m = 6 \<or> m = 7 \<or> m = 8 \<or> m = 9 \<or> m = 10 \<or> m = 11"
    using assms by presburger
  then show ?thesis
    by (elim disjE) (simp_all add: days_before_month_def days_in_month_def nth_DBM nth_DIM)
qed

lemma days_in_month_pos:
  assumes "1 \<le> m" "m \<le> 12"
  shows "28 \<le> days_in_month y m"
proof -
  have "m = 1 \<or> m = 2 \<or> m = 3 \<or> m = 4 \<or> m = 5 \<or> m = 6 \<or> m = 7 \<or> m = 8 \<or> m = 9 \<or> m = 10 \<or> m = 11 \<or> m = 12"
    using assms by presburger
  then show ?thesis
    by (elim disjE) (simp_all add: days_in_month_def nth_DIM)
qed

lemma days_before_month_mono:
  assumes "1 \<le> m" "m \<le> m'" "m' \<le> 12"
  shows "days_before_month y m \<le> days_before_month y m'"
  using assms(2,1,3)
proof (induction m' rule: int_ge_induct)
  case base
  show ?case by simp
next
  case (step i)
  have "0 \<le> days_in_month y i"
    using days_in_month_pos[of i y] step.hyps step.prems by linarith
  then show ?case
    using step days_before_month_Suc[of i y] by simp
qed

lemma ymd2ord_inj:
  assumes "1 \<le> m" "m \<le> 12" "1 \<le> d" "d \<le> days_in_month y m"
    and "1 \<le> m'" "m' \<le> 12" "1 \<le> d'" "d' \<le> days_in_month y' m'"
    and "ymd2ord y m d = ymd2ord y' m' d'"
  shows "y = y' \<and> m = m' \<and> d = d'"
proof -
  have year_lt: False
    if "a < b" "1 \<le> ma" "ma \<le> 12" "1 \<le> da" "da \<le> days_in_month a ma"
      "1 \<le> mb" "mb \<le> 12" "1 \<le> db" "db \<le> days_in_month b mb"
      "ymd2ord a ma da = ymd2ord b mb db" for a b ma da mb db
  proof -
    have "ymd2ord a ma da \<le> days_before_year (a + 1)"
      using days_before_month_day(2)[OF that(2-5)]
      by (simp add: ymd2ord_def days_before_year_Suc)
    also have "\<dots> \<le> days_before_year b"
      using that(1) by (intro days_before_year_mono) simp
    also have "\<dots> < ymd2ord b mb db"
      using days_before_month_day(1)[OF that(6-9)] by (simp add: ymd2ord_def)
    finally show False using that(10) by simp
  qed
  have y: "y = y'"
    using year_lt[OF _ assms(1-4) assms(5-8) assms(9)]
      year_lt[OF _ assms(5-8) assms(1-4) assms(9)[symmetric]]
    by force
  have month_lt: False
    if "ma < mb" "1 \<le> ma" "mb \<le> 12" "da \<le> days_in_month y ma" "1 \<le> db"
      "days_before_month y ma + da = days_before_month y mb + db" for ma mb da db
  proof -
    have "days_before_month y ma + da \<le> days_before_month y (ma + 1)"
      using that by (simp add: days_before_month_Suc)
    also have "\<dots> \<le> days_before_month y mb"
      using that by (intro days_before_month_mono) simp_all
    finally show False using that(5,6) by simp
  qed
  have e: "days_before_month y m + d = days_before_month y m' + d'"
    using assms(9) unfolding y[symmetric] by (simp add: ymd2ord_def)
  have m: "m = m'"
    using month_lt[OF _ assms(1) assms(6) assms(4) assms(7) e]
      month_lt[OF _ assms(5) assms(2) _ assms(3) e[symmetric]] assms(8) y
    by force
  show ?thesis using y m e by simp
qed

lemma ord2ymd_ymd2ord:
  assumes "1 \<le> y" "1 \<le> m" "m \<le> 12" "1 \<le> d" "d \<le> days_in_month y m"
  shows "ord2ymd (ymd2ord y m d) = (y, m, d)"
proof -
  have "0 \<le> days_before_year y"
    using days_before_year_mono[of 1 y] assms(1) by (simp add: days_before_year_def)
  then have n: "1 \<le> ymd2ord y m d"
    using days_before_month_day(1)[OF assms(2-5)] by (simp add: ymd2ord_def)
  obtain y' m' d' where o: "ord2ymd (ymd2ord y m d) = (y', m', d')"
    by (cases "ord2ymd (ymd2ord y m d)")
  from ord2ymd_ok[OF n] o
  have k: "ymd2ord y' m' d' = ymd2ord y m d" "1 \<le> m'" "m' \<le> 12" "1 \<le> d'" "d' \<le> days_in_month y' m'"
    by simp_all
  from ymd2ord_inj[OF assms(2-5) k(2-5) k(1)[symmetric]] o show ?thesis by simp
qed

lemma strftime_strptime:
  assumes "strptime_ymdh (y, m, d, h) = Inr t"
  shows "strftime_Ymd t = zfill4 y @ zfill2 m @ zfill2 d"
proof -
  from assms have v: "1 \<le> y" "1 \<le> m" "m \<le> 12" "1 \<le> d" "d \<le> days_in_month y m"
    and t: "ordinal t = ymd2ord y m d"
    by (auto simp: strptime_ymdh_def split: if_splits)
  show ?thesis
    by (simp add: strftime_Ymd_def t ord2ymd_ymd2ord[OF v])
qed

subsection \<open>The discovery loop as a walk over days\<close>

lemma pres_path_day: "pres_path input_dir t = day_path input_dir (ordinal t)"
  by (simp add: pres_path_def day_path_def strftime_Ymd_def)

lemma file_date_day_path:
  "1 \<le> n \<Longrightarrow> n \<le> MAXORDINAL \<Longrightarrow> file_date input_dir (day_path input_dir n) = n"
  unfolding day_path_def by (subst file_date_pres_path) simp_all

lemma walk_days_0 [simp]: "walk_days n step 0 = []"
  by (simp add: walk_days_def)

lemma walk_days_Suc: "walk_days n step (Suc k) = (n + step) # walk_days (n + step) step k"
proof -
  have "[1..<Suc (Suc k)] = 1 # map Suc [1..<Suc k]"
    by (simp only: map_Suc_upt upt_conv_Cons[of 1 "Suc (Suc k)"])
  then show ?thesis
    by (simp add: walk_days_def algebra_simps del: upt_Suc)
qed

lemma length_walk_days [simp]: "length (walk_days n step k) = k"
  by (simp add: walk_days_def)

lemma walk_days_nth: "i < k \<Longrightarrow> walk_days n step k ! i = n + step * (int i + 1)"
  by (simp add: walk_days_def del: upt_Suc)

lemma set_walk_days_fwd: "set (walk_days n 1 k) = {n + 1 .. n + int k}"
proof (induction k arbitrary: n)
  case 0
  show ?case by simp
next
  case (Suc k)
  show ?case by (auto simp: walk_days_Suc Suc)
qed

lemma set_walk_days_bwd: "set (walk_days n (-1) k) = {n - int k .. n - 1}"
proof (induction k arbitrary: n)
  case 0
  show ?case by simp
next
  case (Suc k)
  show ?case by (auto simp: walk_days_Suc Suc)
qed

lemma read_following_walk:
  assumes "step = 1 \<or> step = -1"
    and "0 \<le> hour c" "hour c < 24"
    and "1 \<le> ordinal c" "ordinal c \<le> MAXORDINAL"
    and "1 \<le> ordinal f" "ordinal f \<le> MAXORDINAL"
    and "ordinal f = ordinal c + step * int k"
  shows "read_following files input_dir (timedelta_days step) f c nc ds =
           Some (read_days files input_dir (hour c) (walk_days (ordinal c) step k) nc ds)"
  using assms(2-)
proof (induction k arbitrary: c nc ds)
  case 0
  then have "strftime_Ymd c = strftime_Ymd f"
    by (simp add: strftime_Ymd_def)
  then show ?case
    by (simp add: read_following.simps[of files input_dir _ f c])
next
  case (Suc k)
  define c' where "c' = \<lparr>ordinal = ordinal c + step, hour = hour c\<rparr>"
  have ne: "ordinal c \<noteq> ordinal f" using Suc.prems(7) assms(1) by auto
  have rng: "0 < ordinal c + step" "ordinal c + step \<le> MAXORDINAL"
    using Suc.prems assms(1) by auto
  have "strftime_Ymd c \<noteq> strftime_Ymd f"
    using ne strftime_eq_iff[OF Suc.prems(3,4,5,6)] by simp
  moreover have "dt_add c (timedelta_days step) = Inr c'"
    using rng by (simp add: dt_add_days[OF Suc.prems(1,2)] c'_def)
  ultimately have unf: "read_following files input_dir (timedelta_days step) f c nc ds =
      (case files (pres_path input_dir c') of
         None \<Rightarrow> Some (throw_error (cannot_locate (pres_path input_dir c')))
       | Some d \<Rightarrow> read_following files input_dir (timedelta_days step) f c'
                    (nc @ [pres_path input_dir c']) (ds @ [d]))"
    by (simp add: read_following.simps[of files input_dir _ f c] Let_def)
  have p: "pres_path input_dir \<lparr>ordinal = ordinal c + step, hour = hour c\<rparr> = pres_path input_dir c'"
    by (simp add: c'_def)
  show ?case
  proof (cases "files (pres_path input_dir c')")
    case None
    then show ?thesis
      by (simp add: unf walk_days_Suc p Let_def)
  next
    case (Some d)
    have "read_following files input_dir (timedelta_days step) f c' (nc @ [pres_path input_dir c']) (ds @ [d]) =
        Some (read_days files input_dir (hour c') (walk_days (ordinal c') step k)
                (nc @ [pres_path input_dir c']) (ds @ [d]))"
    proof (rule Suc.IH)
      show "ordinal f = ordinal c' + step * int k"
        using Suc.prems(7) by (simp add: c'_def algebra_simps)
    qed (use Suc.prems rng in \<open>simp_all add: c'_def\<close>)
    then show ?thesis
      using Some by (simp add: unf walk_days_Suc p Let_def) (simp add: c'_def)
  qed
qed

lemma read_days_Inr:
  assumes "read_days files input_dir h ns nc ds = Inr (nc', ds')"
  shows "nc' = nc @ map (day_path input_dir) ns \<and>
         map Some ds' = map Some ds @ map (\<lambda>n. files (day_path input_dir n)) ns"
  using assms
proof (induction ns arbitrary: nc ds)
  case Nil
  then show ?case by simp
next
  case (Cons n ns)
  show ?case
  proof (cases "files (day_path input_dir n)")
    case None
    with Cons.prems show ?thesis
      by (simp add: Let_def pres_path_day throw_error_def)
  next
    case (Some d)
    with Cons.prems have "read_days files input_dir h ns (nc @ [day_path input_dir n]) (ds @ [d]) = Inr (nc', ds')"
      by (simp add: Let_def pres_path_day)
    from Cons.IH[OF this] Some show ?thesis by simp
  qed
qed

lemma read_days_all_exist:
  assumes "list_all (\<lambda>n. files (day_path input_dir n) \<noteq> None) ns"
  shows "read_days files input_dir h ns nc ds =
           Inr (nc @ map (day_path input_dir) ns, ds @ map (\<lambda>n. the (files (day_path input_dir n))) ns)"
  using assms
  by (induction ns arbitrary: nc ds) (auto simp: Let_def pres_path_day)

lemma read_days_missing:
  assumes "list_all (\<lambda>n. files (day_path input_dir n) \<noteq> None) ns"
    and "files (day_path input_dir m) = None"
  shows "read_days files input_dir h (ns @ m # ms) nc ds =
           Inl (Fatal (cannot_locate (day_path input_dir m)))"
  using assms
  by (induction ns arbitrary: nc ds) (auto simp: Let_def pres_path_day throw_error_def)

lemma read_days_Inl:
  assumes "read_days files input_dir h ns nc ds = Inl e"
  shows "\<exists>pre m post. ns = pre @ m # post
           \<and> list_all (\<lambda>n. files (day_path input_dir n) \<noteq> None) pre
           \<and> files (day_path input_dir m) = None
           \<and> e = Fatal (cannot_locate (day_path input_dir m))"
  using assms
proof (induction ns arbitrary: nc ds)
  case Nil
  then show ?case by simp
next
  case (Cons n ns)
  show ?case
  proof (cases "files (day_path input_dir n)")
    case None
    with Cons.prems have "e = Fatal (cannot_locate (day_path input_dir n))"
      by (simp add: Let_def pres_path_day throw_error_def)
    with None have "n # ns = [] @ n # ns \<and> list_all (\<lambda>n. files (day_path input_dir n) \<noteq> None) []
        \<and> files (day_path input_dir n) = None \<and> e = Fatal (cannot_locate (day_path input_dir n))"
      by simp
    then show ?thesis by blast
  next
    case (Some d)
    with Cons.prems have "read_days files input_dir h ns (nc @ [day_path input_dir n]) (ds @ [d]) = Inl e"
      by (simp add: Let_def pres_path_day)
    from Cons.IH[OF this] obtain pre m post where
      k: "ns = pre @ m # post" "list_all (\<lambda>n. files (day_path input_dir n) \<noteq> None) pre"
        "files (day_path input_dir m) = None" "e = Fatal (cannot_locate (day_path input_dir m))"
      by blast
    then have "n # ns = (n # pre) @ m # post \<and> list_all (\<lambda>n. files (day_path input_dir n) \<noteq> None) (n # pre)
        \<and> files (day_path input_dir m) = None \<and> e = Fatal (cannot_locate (day_path input_dir m))"
      using Some by simp
    then show ?thesis by blast
  qed
qed

lemma discover_Inr_fields:
  assumes "discover files cfg = Some (Inr d)"
  shows "strptime_ymdh (start_ymdh cfg) = Inr (d_strt_t d)"
    and "dt_add (d_strt_t d) (timedelta_hours (forward_option cfg * integration_length cfg)) = Inr (d_final_t d)"
    and "d_forward d = forward_option cfg"
    and "files (day_path (input_era5_case cfg) (ordinal (d_strt_t d))) \<noteq> None"
proof -
  obtain s where s: "strptime_ymdh (start_ymdh cfg) = Inr s"
    using assms by (cases "strptime_ymdh (start_ymdh cfg)") (simp_all add: discover_def)
  obtain f where f: "dt_add s (timedelta_hours (forward_option cfg * integration_length cfg)) = Inr f"
    using assms s
    by (cases "dt_add s (timedelta_hours (forward_option cfg * integration_length cfg))")
      (simp_all add: discover_def Let_def)
  obtain d0 where d0: "files (pres_path (input_era5_case cfg) s) = Some d0"
    using assms s f
    by (cases "files (pres_path (input_era5_case cfg) s)") (simp_all add: discover_def Let_def throw_error_def)
  from assms s f d0 have "d_strt_t d = s \<and> d_final_t d = f \<and> d_forward d = forward_option cfg"
    by (auto simp: discover_def Let_def split: option.splits sum.splits)
  with s f d0 show "strptime_ymdh (start_ymdh cfg) = Inr (d_strt_t d)"
    "dt_add (d_strt_t d) (timedelta_hours (forward_option cfg * integration_length cfg)) = Inr (d_final_t d)"
    "d_forward d = forward_option cfg"
    "files (day_path (input_era5_case cfg) (ordinal (d_strt_t d))) \<noteq> None"
    by (simp_all add: pres_path_day)
qed

lemma final_day:
  assumes "forward_option cfg = 1 \<or> forward_option cfg = -1"
    and "0 \<le> integration_length cfg"
    and "0 \<le> hour s" "hour s < 24"
    and "dt_add s (timedelta_hours (forward_option cfg * integration_length cfg)) = Inr f"
  shows "ordinal f = ordinal s + forward_option cfg * int (nat \<bar>ordinal f - ordinal s\<bar>)"
proof -
  have o: "ordinal f = ordinal s + (hour s + forward_option cfg * integration_length cfg) div 24"
    by (rule dt_add_hours(1)[OF assms(5)])
  from assms(1) show ?thesis
  proof
    assume fw: "forward_option cfg = 1"
    have "0 \<le> (hour s + integration_length cfg) div 24"
      using assms(2,3) by (simp add: pos_imp_zdiv_nonneg_iff)
    then show ?thesis using o fw by simp
  next
    assume fw: "forward_option cfg = -1"
    have "hour s - integration_length cfg < 24" using assms(2,4) by linarith
    then have "(hour s - integration_length cfg) div 24 \<le> 0"
      by linarith
    then show ?thesis using o fw by simp
  qed
qed

lemma discover_walk:
  assumes s: "strptime_ymdh (start_ymdh cfg) = Inr s"
    and fw: "forward_option cfg = 1 \<or> forward_option cfg = -1"
    and L: "0 \<le> integration_length cfg"
    and f: "dt_add s (timedelta_hours (forward_option cfg * integration_length cfg)) = Inr f"
  shows "discover files cfg =
     (case files (day_path (input_era5_case cfg) (ordinal s)) of
        None \<Rightarrow> Some (Inl (Fatal (cannot_locate (day_path (input_era5_case cfg) (ordinal s)))))
      | Some d0 \<Rightarrow>
          (case read_days files (input_era5_case cfg) (hour s)
                  (walk_days (ordinal s) (forward_option cfg) (nat \<bar>ordinal f - ordinal s\<bar>))
                  [day_path (input_era5_case cfg) (ordinal s)] [d0] of
             Inl e \<Rightarrow> Some (Inl e)
           | Inr (nc, ds) \<Rightarrow>
               Some (Inr \<lparr>d_strt_t = s, d_forward = forward_option cfg, d_final_t = f,
                          d_nc_pres_files = nc, d_ds_grib = ds\<rparr>)))"
proof -
  note sv = strptime_ymdh_valid[OF s]
  note fv = dt_add_hours[OF f]
  have dist: "ordinal f = ordinal s + forward_option cfg * int (nat \<bar>ordinal f - ordinal s\<bar>)"
    by (rule final_day[OF fw L sv(3,4) f])
  have loop: "read_following files (input_era5_case cfg) (timedelta_days (forward_option cfg)) f s nc ds =
      Some (read_days files (input_era5_case cfg) (hour s)
              (walk_days (ordinal s) (forward_option cfg) (nat \<bar>ordinal f - ordinal s\<bar>)) nc ds)" for nc ds
    by (rule read_following_walk[OF fw sv(3,4) sv(1,2) fv(3,4) dist])
  show ?thesis
    by (simp add: discover_def s f Let_def loop pres_path_day throw_error_def
        split: option.splits sum.splits prod.splits)
qed

lemma walk_days_full:
  "n # walk_days n step k = map (\<lambda>i. n + step * int i) [0..<Suc k]"
proof -
  have "[0..<Suc k] = 0 # [1..<Suc k]" by (simp add: upt_conv_Cons del: upt_Suc)
  then show ?thesis by (simp add: walk_days_def del: upt_Suc)
qed

lemma discover_Inr_lists:
  assumes d: "discover files cfg = Some (Inr d)"
    and fw: "forward_option cfg = 1 \<or> forward_option cfg = -1"
    and L: "0 \<le> integration_length cfg"
  shows "d_nc_pres_files d = map (day_path (input_era5_case cfg))
            (ordinal (d_strt_t d) # walk_days (ordinal (d_strt_t d)) (forward_option cfg)
               (nat \<bar>ordinal (d_final_t d) - ordinal (d_strt_t d)\<bar>))"
    and "map Some (d_ds_grib d) = map (\<lambda>n. files (day_path (input_era5_case cfg) n))
            (ordinal (d_strt_t d) # walk_days (ordinal (d_strt_t d)) (forward_option cfg)
               (nat \<bar>ordinal (d_final_t d) - ordinal (d_strt_t d)\<bar>))"
proof -
  note k = discover_Inr_fields[OF d]
  obtain d0 where d0: "files (day_path (input_era5_case cfg) (ordinal (d_strt_t d))) = Some d0"
    using k(4) by blast
  from d discover_walk[OF k(1) fw L k(2), of files] d0
  obtain a b where r: "read_days files (input_era5_case cfg) (hour (d_strt_t d))
          (walk_days (ordinal (d_strt_t d)) (forward_option cfg)
             (nat \<bar>ordinal (d_final_t d) - ordinal (d_strt_t d)\<bar>))
          [day_path (input_era5_case cfg) (ordinal (d_strt_t d))] [d0] = Inr (a, b)"
    and dd: "d = \<lparr>d_strt_t = d_strt_t d, d_forward = forward_option cfg,
               d_final_t = d_final_t d, d_nc_pres_files = a, d_ds_grib = b\<rparr>"
    by (auto split: sum.splits)
  have "a = d_nc_pres_files d" "b = d_ds_grib d"
    by (subst dd, simp)+
  with r have "read_days files (input_era5_case cfg) (hour (d_strt_t d))
          (walk_days (ordinal (d_strt_t d)) (forward_option cfg)
             (nat \<bar>ordinal (d_final_t d) - ordinal (d_strt_t d)\<bar>))
          [day_path (input_era5_case cfg) (ordinal (d_strt_t d))] [d0]
        = Inr (d_nc_pres_files d, d_ds_grib d)"
    by simp
  from read_days_Inr[OF this] d0
  show "d_nc_pres_files d = map (day_path (input_era5_case cfg))
            (ordinal (d_strt_t d) # walk_days (ordinal (d_strt_t d)) (forward_option cfg)
               (nat \<bar>ordinal (d_final_t d) - ordinal (d_strt_t d)\<bar>))"
    and "map Some (d_ds_grib d) = map (\<lambda>n. files (day_path (input_era5_case cfg) n))
            (ordinal (d_strt_t d) # walk_days (ordinal (d_strt_t d)) (forward_option cfg)
               (nat \<bar>ordinal (d_final_t d) - ordinal (d_strt_t d)\<bar>))"
    by simp_all
qed

lemma walk_in_range:
  assumes "step = 1 \<or> step = -1"
    and "1 \<le> n" "n \<le> MAXORDINAL" "1 \<le> n + step * int k" "n + step * int k \<le> MAXORDINAL"
    and "m \<in> set (n # walk_days n step k)"
  shows "1 \<le> m \<and> m \<le> MAXORDINAL"
  using assms(1)
proof
  assume "step = 1"
  then show ?thesis using assms(2-) by (auto simp: set_walk_days_fwd)
next
  assume "step = -1"
  then show ?thesis using assms(2-) by (auto simp: set_walk_days_bwd)
qed

subsection \<open>The example runs\<close>

lemma day_path_examples:
  "day_path ''/era5'' 737423 = ''/era5/20191230-pl.grib''"
  "day_path ''/era5'' 737424 = ''/era5/20191231-pl.grib''"
  "day_path ''/era5'' 737425 = ''/era5/20200101-pl.grib''"
  "day_path ''/era5'' 737426 = ''/era5/20200102-pl.grib''"
  by (simp_all add: day_path_def pres_path_def strftime_Ymd_def ord2ymd_def month_day_def Let_def
      nth_DBM nth_DIM zfill4_def zfill2_def digit_char_def fn_suffix_def)

lemma strptime_example:
  "strptime_ymdh (2020, 1, 1, 0) = Inr \<lparr>ordinal = 737425, hour = 0\<rparr>"
  by (simp add: strptime_ymdh_def days_in_month_def ymd2ord_def days_before_year_def
      days_before_month_def is_leap_def nth_DBM nth_DIM Let_def)

lemma dt_add_examples:
  "dt_add \<lparr>ordinal = 737425, hour = 0\<rparr> (timedelta_hours (1 * 30)) = Inr \<lparr>ordinal = 737426, hour = 6\<rparr>"
  "dt_add \<lparr>ordinal = 737425, hour = 0\<rparr> (timedelta_hours (-1 * 30)) = Inr \<lparr>ordinal = 737423, hour = 18\<rparr>"
  by (simp_all add: dt_add_def timedelta_hours_def MAXORDINAL_def Let_def)

lemma era5_store_day:
  "1 \<le> n \<Longrightarrow> n \<le> MAXORDINAL \<Longrightarrow> era5_store (day_path ''/era5'' n) = Some (day_dataset n)"
  by (simp add: era5_store_def file_date_day_path)

lemma walk_days_examples:
  "walk_days 737425 1 (Suc 0) = [737426]"
  "walk_days 737425 (-1) 2 = [737424, 737423]"
  by (simp_all add: walk_days_def numeral_2_eq_2)

lemma discover_run_forward: "discover era5_store run_forward = Some (Inr found_forward)"
proof -
  have s: "strptime_ymdh (start_ymdh run_forward) = Inr \<lparr>ordinal = 737425, hour = 0\<rparr>"
    by (simp add: run_forward_def strptime_example)
  have f: "dt_add \<lparr>ordinal = 737425, hour = 0\<rparr>
      (timedelta_hours (forward_option run_forward * integration_length run_forward))
      = Inr \<lparr>ordinal = 737426, hour = 6\<rparr>"
    using dt_add_examples(1) by (simp add: run_forward_def)
  have e: "era5_store (day_path ''/era5'' 737425) = Some (day_dataset 737425)"
    "era5_store (day_path ''/era5'' 737426) = Some (day_dataset 737426)"
    by (simp_all add: era5_store_day MAXORDINAL_def)
  have "discover era5_store run_forward = Some (Inr
      \<lparr>d_strt_t = \<lparr>ordinal = 737425, hour = 0\<rparr>, d_forward = 1,
       d_final_t = \<lparr>ordinal = 737426, hour = 6\<rparr>,
       d_nc_pres_files = [day_path ''/era5'' 737425, day_path ''/era5'' 737426],
       d_ds_grib = [day_dataset 737425, day_dataset 737426]\<rparr>)"
    by (subst discover_walk[OF s _ _ f])
      (simp_all add: run_forward_def walk_days_examples e pres_path_day Let_def)
  then show ?thesis by (simp add: found_forward_def day_path_examples)
qed

lemma discover_run_backward: "discover era5_store run_backward = Some (Inr found_backward)"
proof -
  have s: "strptime_ymdh (start_ymdh run_backward) = Inr \<lparr>ordinal = 737425, hour = 0\<rparr>"
    by (simp add: run_backward_def run_forward_def strptime_example)
  have f: "dt_add \<lparr>ordinal = 737425, hour = 0\<rparr>
      (timedelta_hours (forward_option run_backward * integration_length run_backward))
      = Inr \<lparr>ordinal = 737423, hour = 18\<rparr>"
    using dt_add_examples(2) by (simp add: run_backward_def run_forward_def)
  have e: "era5_store (day_path ''/era5'' 737425) = Some (day_dataset 737425)"
    "era5_store (day_path ''/era5'' 737424) = Some (day_dataset 737424)"
    "era5_store (day_path ''/era5'' 737423) = Some (day_dataset 737423)"
    by (simp_all add: era5_store_day MAXORDINAL_def)
  have "discover era5_store run_backward = Some (Inr
      \<lparr>d_strt_t = \<lparr>ordinal = 737425, hour = 0\<rparr>, d_forward = -1,
       d_final_t = \<lparr>ordinal = 737423, hour = 18\<rparr>,
       d_nc_pres_files = [day_path ''/era5'' 737425, day_path ''/era5'' 737424, day_path ''/era5'' 737423],
       d_ds_grib = [day_dataset 737425, day_dataset 737424, day_dataset 737423]\<rparr>)"
    by (subst discover_walk[OF s _ _ f])
      (simp_all add: run_backward_def run_forward_def walk_days_examples e pres_path_day Let_def)
  then show ?thesis by (simp add: found_backward_def day_path_examples)
qed

lemma file_date_examples:
  "file_date ''/era5'' ''/era5/20191230-pl.grib'' = 737423"
  "file_date ''/era5'' ''/era5/20191231-pl.grib'' = 737424"
  "file_date ''/era5'' ''/era5/20200101-pl.grib'' = 737425"
  "file_date ''/era5'' ''/era5/20200102-pl.grib'' = 737426"
  using file_date_day_path[of 737423 "''/era5''"] file_date_day_path[of 737424 "''/era5''"]
    file_date_day_path[of 737425 "''/era5''"] file_date_day_path[of 737426 "''/era5''"]
  by (simp_all add: day_path_examples MAXORDINAL_def)

subsection \<open>Discovered files: order, number, missing files, termination\<close>

lemma sorted_walk_up: "sorted_wrt (<) (map (\<lambda>i. n + 1 * int i) [0..<k])"
  by (simp add: sorted_wrt_map sorted_wrt_iff_nth_less)

lemma sorted_walk_down: "sorted_wrt (>) (map (\<lambda>i. n + (- 1) * int i) [0..<k])"
  by (simp add: sorted_wrt_map sorted_wrt_iff_nth_less)

lemma discover_dates:
  assumes d: "discover files cfg = Some (Inr d)"
    and fw: "forward_option cfg = 1 \<or> forward_option cfg = -1"
    and L: "0 \<le> integration_length cfg"
  shows "map (file_date (input_era5_case cfg)) (d_nc_pres_files d) =
           map (\<lambda>i. ordinal (d_strt_t d) + forward_option cfg * int i)
             [0..<Suc (nat \<bar>ordinal (d_final_t d) - ordinal (d_strt_t d)\<bar>)]"
proof -
  note k = discover_Inr_fields[OF d]
  note sv = strptime_ymdh_valid[OF k(1)]
  note fv = dt_add_hours[OF k(2)]
  define days where "days = ordinal (d_strt_t d) # walk_days (ordinal (d_strt_t d)) (forward_option cfg)
      (nat \<bar>ordinal (d_final_t d) - ordinal (d_strt_t d)\<bar>)"
  have dist: "ordinal (d_final_t d) =
      ordinal (d_strt_t d) + forward_option cfg * int (nat \<bar>ordinal (d_final_t d) - ordinal (d_strt_t d)\<bar>)"
    by (rule final_day[OF fw L sv(3,4) k(2)])
  have rng: "1 \<le> m \<and> m \<le> MAXORDINAL" if "m \<in> set days" for m
    using walk_in_range[OF fw sv(1,2), of "nat \<bar>ordinal (d_final_t d) - ordinal (d_strt_t d)\<bar>" m]
      that fv(3,4) dist unfolding days_def by simp
  have "d_nc_pres_files d = map (day_path (input_era5_case cfg)) days"
    unfolding days_def by (rule discover_Inr_lists(1)[OF d fw L])
  then have "map (file_date (input_era5_case cfg)) (d_nc_pres_files d) = days"
    using rng by (simp add: map_idI file_date_day_path)
  then show ?thesis by (simp only: days_def walk_days_full)
qed

text \<open>
  Claim C1, as amended. Discovery moves the cursor by \<open>forward\<close> days per iteration, not by
  one day forward whatever the direction: the file dated \<open>i\<close> places after the first is
  the one of day \<open>start + forward * i\<close>. For a valid configuration (direction \<open>1\<close> or
  \<open>-1\<close>, a length that is not negative) the discovered list is therefore in strictly
  increasing date order for a forward run and in strictly decreasing date order for a
  backward run.
\<close>

theorem discovered_files_follow_direction:
  assumes "discover files cfg = Some (Inr d)"
    and "forward_option cfg = 1 \<or> forward_option cfg = -1"
    and "0 \<le> integration_length cfg"
  shows "map (file_date (input_era5_case cfg)) (d_nc_pres_files d) =
           map (\<lambda>i. ordinal (d_strt_t d) + forward_option cfg * int i) [0..<length (d_nc_pres_files d)]
         \<and> (forward_option cfg = 1 \<longrightarrow>
              sorted_wrt (<) (map (file_date (input_era5_case cfg)) (d_nc_pres_files d)))
         \<and> (forward_option cfg = -1 \<longrightarrow>
              sorted_wrt (>) (map (file_date (input_era5_case cfg)) (d_nc_pres_files d)))"
proof -
  let ?k = "Suc (nat \<bar>ordinal (d_final_t d) - ordinal (d_strt_t d)\<bar>)"
  have m: "map (file_date (input_era5_case cfg)) (d_nc_pres_files d) =
      map (\<lambda>i. ordinal (d_strt_t d) + forward_option cfg * int i) [0..<?k]"
    by (rule discover_dates[OF assms])
  have "length (map (file_date (input_era5_case cfg)) (d_nc_pres_files d)) = ?k"
    unfolding m by simp
  then have len: "length (d_nc_pres_files d) = ?k" by simp
  have up: "sorted_wrt (<) (map (file_date (input_era5_case cfg)) (d_nc_pres_files d))"
    if "forward_option cfg = 1"
    unfolding m that by (rule sorted_walk_up)
  have down: "sorted_wrt (>) (map (file_date (input_era5_case cfg)) (d_nc_pres_files d))"
    if "forward_option cfg = -1"
    unfolding m that by (rule sorted_walk_down)
  show ?thesis using m up down unfolding len by blast
qed

theorem discovered_files_follow_direction_witness:
  "discover era5_store run_backward = Some (Inr found_backward)
   \<and> map (file_date ''/era5'') (d_nc_pres_files found_backward) = [737425, 737424, 737423]
   \<and> sorted_wrt (>) (map (file_date ''/era5'') (d_nc_pres_files found_backward))"
proof -
  have fw: "forward_option run_backward = 1 \<or> forward_option run_backward = -1"
    and L: "0 \<le> integration_length run_backward"
    and dir: "input_era5_case run_backward = ''/era5''"
    and b: "forward_option run_backward = -1"
    by (simp_all add: run_backward_def run_forward_def)
  from discovered_files_follow_direction[OF discover_run_backward fw L] b
  have "sorted_wrt (>) (map (file_date (input_era5_case run_backward)) (d_nc_pres_files found_backward))"
    by blast
  then have "sorted_wrt (>) (map (file_date ''/era5'') (d_nc_pres_files found_backward))"
    unfolding dir .
  moreover have "map (file_date ''/era5'') (d_nc_pres_files found_backward) = [737425, 737424, 737423]"
    by (simp add: found_backward_def file_date_examples)
  ultimately show ?thesis
    using discover_run_backward by blast
qed

text \<open>
  Claim C1 as stated fails on the backward run of the specification's own scenario: the
  files are discovered in the order 2020-01-01, 2019-12-31, 2019-12-30, which is not
  increasing.
\<close>

theorem discovery_walks_backward_counterexample:
  "discover era5_store run_backward = Some (Inr found_backward)
   \<and> d_nc_pres_files found_backward =
       [''/era5/20200101-pl.grib'', ''/era5/20191231-pl.grib'', ''/era5/20191230-pl.grib'']
   \<and> \<not> sorted_wrt (<) (map (file_date ''/era5'') (d_nc_pres_files found_backward))"
  by (simp add: discover_run_backward) (simp add: found_backward_def file_date_examples)

lemma discover_length:
  assumes "discover files cfg = Some (Inr d)"
    and "forward_option cfg = 1 \<or> forward_option cfg = -1"
    and "0 \<le> integration_length cfg"
  shows "length (d_nc_pres_files d) = Suc (nat \<bar>ordinal (d_final_t d) - ordinal (d_strt_t d)\<bar>)"
  by (simp add: discover_Inr_lists(1)[OF assms])

text \<open>
  Claim C2, as amended. For a valid configuration the discovered list has one entry per
  calendar day from the start date to the final date, both included: the number of days
  between the two dates plus one. That is \<open>(start hour + length) div 24 + 1\<close> for a
  forward run and \<open>- ((start hour - length) div 24) + 1\<close> for a backward run, so the
  count depends on the start hour and on the direction and is not
  \<open>ceil(length / 24) + 1\<close>.
\<close>

theorem discovered_file_count:
  assumes "discover files cfg = Some (Inr d)"
    and "forward_option cfg = 1 \<or> forward_option cfg = -1"
    and "0 \<le> integration_length cfg"
  shows "length (d_nc_pres_files d) = nat \<bar>ordinal (d_final_t d) - ordinal (d_strt_t d)\<bar> + 1
         \<and> (forward_option cfg = 1 \<longrightarrow> length (d_nc_pres_files d) =
               nat ((hour (d_strt_t d) + integration_length cfg) div 24) + 1)
         \<and> (forward_option cfg = -1 \<longrightarrow> length (d_nc_pres_files d) =
               nat (- ((hour (d_strt_t d) - integration_length cfg) div 24)) + 1)
         \<and> hd (d_nc_pres_files d) = day_path (input_era5_case cfg) (ordinal (d_strt_t d))
         \<and> last (d_nc_pres_files d) = day_path (input_era5_case cfg) (ordinal (d_final_t d))"
proof -
  note k = discover_Inr_fields[OF assms(1)]
  note sv = strptime_ymdh_valid[OF k(1)]
  let ?k = "nat \<bar>ordinal (d_final_t d) - ordinal (d_strt_t d)\<bar>"
  have o: "ordinal (d_final_t d) = ordinal (d_strt_t d)
      + (hour (d_strt_t d) + forward_option cfg * integration_length cfg) div 24"
    by (rule dt_add_hours(1)[OF k(2)])
  have dist: "ordinal (d_final_t d) = ordinal (d_strt_t d) + forward_option cfg * int ?k"
    by (rule final_day[OF assms(2,3) sv(3,4) k(2)])
  have len: "length (d_nc_pres_files d) = Suc ?k"
    by (rule discover_length[OF assms])
  have nc: "d_nc_pres_files d = map (day_path (input_era5_case cfg))
      (ordinal (d_strt_t d) # walk_days (ordinal (d_strt_t d)) (forward_option cfg) ?k)"
    by (rule discover_Inr_lists(1)[OF assms])
  have f1: "length (d_nc_pres_files d) = nat ((hour (d_strt_t d) + integration_length cfg) div 24) + 1"
    if "forward_option cfg = 1"
  proof -
    have "(hour (d_strt_t d) + integration_length cfg) div 24 = int ?k"
      using o dist that by simp
    then have "nat ((hour (d_strt_t d) + integration_length cfg) div 24) = ?k"
      by (simp only: nat_int)
    then show ?thesis using len by simp
  qed
  have f2: "length (d_nc_pres_files d) = nat (- ((hour (d_strt_t d) - integration_length cfg) div 24)) + 1"
    if "forward_option cfg = -1"
  proof -
    have "- ((hour (d_strt_t d) - integration_length cfg) div 24) = int ?k"
      using o dist that by simp
    then have "nat (- ((hour (d_strt_t d) - integration_length cfg) div 24)) = ?k"
      by (simp only: nat_int)
    then show ?thesis using len by simp
  qed
  have h: "hd (d_nc_pres_files d) = day_path (input_era5_case cfg) (ordinal (d_strt_t d))"
    by (simp add: nc)
  have l: "last (d_nc_pres_files d) = day_path (input_era5_case cfg) (ordinal (d_final_t d))"
  proof (cases ?k)
    case 0
    then have "ordinal (d_final_t d) = ordinal (d_strt_t d)" using dist by simp
    then show ?thesis using 0 by (simp add: nc)
  next
    case (Suc j)
    have ne: "walk_days (ordinal (d_strt_t d)) (forward_option cfg) ?k \<noteq> []"
      unfolding Suc by (simp add: walk_days_Suc)
    have "last (walk_days (ordinal (d_strt_t d)) (forward_option cfg) ?k)
        = walk_days (ordinal (d_strt_t d)) (forward_option cfg) ?k ! j"
      using Suc last_conv_nth[OF ne] by simp
    also have "\<dots> = ordinal (d_strt_t d) + forward_option cfg * (int j + 1)"
      using Suc by (simp add: walk_days_nth)
    also have "\<dots> = ordinal (d_final_t d)"
      using dist Suc by simp
    finally show ?thesis using ne by (simp add: nc last_map)
  qed
  show ?thesis using len f1 f2 h l by simp
qed

theorem discovered_file_count_witness:
  "discover era5_store run_forward = Some (Inr found_forward)
   \<and> length (d_nc_pres_files found_forward) = 2
   \<and> hd (d_nc_pres_files found_forward) = day_path ''/era5'' 737425
   \<and> last (d_nc_pres_files found_forward) = day_path ''/era5'' 737426"
proof -
  have fw: "forward_option run_forward = 1 \<or> forward_option run_forward = -1"
    and L: "0 \<le> integration_length run_forward"
    by (simp_all add: run_forward_def)
  have v: "input_era5_case run_forward = ''/era5''" "ordinal (d_strt_t found_forward) = 737425"
    "ordinal (d_final_t found_forward) = 737426"
    by (simp_all add: run_forward_def found_forward_def)
  from discovered_file_count[OF discover_run_forward fw L]
  have "length (d_nc_pres_files found_forward) = 2
    \<and> hd (d_nc_pres_files found_forward) = day_path ''/era5'' 737425
    \<and> last (d_nc_pres_files found_forward) = day_path ''/era5'' 737426"
    unfolding v by simp
  then show ?thesis using discover_run_forward by blast
qed

text \<open>
  Claim C2 as stated fails on the forward run of the specification's own scenario: 30
  hours from 00 UTC touch two calendar days, and two files are discovered, while
  \<open>ceil(30 / 24) + 1\<close> is three.
\<close>

theorem file_count_not_ceiling_counterexample:
  "discover era5_store run_forward = Some (Inr found_forward)
   \<and> length (d_nc_pres_files found_forward) = 2
   \<and> nat \<lceil>real_of_int (integration_length run_forward) / 24\<rceil> + 1 = 3"
proof -
  have "\<lceil>(30::real) / 24\<rceil> = 2" by linarith
  then show ?thesis
    by (simp add: discover_run_forward) (simp add: found_forward_def run_forward_def)
qed

lemma read_following_overshoot:
  assumes "0 < step"
    and "\<And>fn. files fn \<noteq> None"
    and "0 \<le> hour c" "hour c < 24"
    and "1 \<le> ordinal f" "ordinal f < ordinal c" "ordinal c \<le> MAXORDINAL"
  shows "read_following files input_dir (timedelta_days step) f c nc ds = Some (Inl OverflowError)"
  using assms(3-)
proof (induction "nat (MAXORDINAL - ordinal c)" arbitrary: c nc ds rule: less_induct)
  case less
  have "ordinal c \<noteq> ordinal f" using less.prems by simp
  moreover have "1 \<le> ordinal c" "ordinal f \<le> MAXORDINAL" using less.prems by linarith+
  ultimately have ne: "strftime_Ymd c \<noteq> strftime_Ymd f"
    using strftime_eq_iff[of c f] less.prems by simp
  show ?case
  proof (cases "ordinal c + step \<le> MAXORDINAL")
    case False
    then have "dt_add c (timedelta_days step) = Inl OverflowError"
      by (simp add: dt_add_days[OF less.prems(1,2)])
    then show ?thesis
      using ne by (simp add: read_following.simps[of files input_dir _ f c])
  next
    case True
    define c' where "c' = \<lparr>ordinal = ordinal c + step, hour = hour c\<rparr>"
    have a: "dt_add c (timedelta_days step) = Inr c'"
      using True assms(1) less.prems by (simp add: dt_add_days[OF less.prems(1,2)] c'_def)
    obtain d where d: "files (pres_path input_dir c') = Some d"
      using assms(2)[of "pres_path input_dir c'"] by blast
    have "read_following files input_dir (timedelta_days step) f c'
        (nc @ [pres_path input_dir c']) (ds @ [d]) = Some (Inl OverflowError)"
    proof (rule less.hyps)
      show "nat (MAXORDINAL - ordinal c') < nat (MAXORDINAL - ordinal c)"
        using True assms(1) less.prems by (simp add: c'_def)
    qed (use True assms(1) less.prems in \<open>simp_all add: c'_def\<close>)
    then show ?thesis
      using ne a d by (simp add: read_following.simps[of files input_dir _ f c] Let_def)
  qed
qed

lemma discover_total:
  assumes "forward_option cfg = 1 \<or> forward_option cfg = -1"
    and "0 \<le> integration_length cfg"
  shows "\<exists>r. discover files cfg = Some r"
proof (cases "strptime_ymdh (start_ymdh cfg)")
  case (Inl e)
  then show ?thesis by (simp add: discover_def)
next
  case (Inr s)
  show ?thesis
  proof (cases "dt_add s (timedelta_hours (forward_option cfg * integration_length cfg))")
    case (Inl e)
    then show ?thesis using Inr by (simp add: discover_def)
  next
    case f: (Inr f)
    show ?thesis
      unfolding discover_walk[OF Inr assms f]
      by (simp split: option.splits sum.splits prod.splits)
  qed
qed

lemma discover_run_skip: "discover era5_store run_skip = Some (Inl OverflowError)"
proof -
  have s: "strptime_ymdh (start_ymdh run_skip) = Inr \<lparr>ordinal = 737425, hour = 0\<rparr>"
    by (simp add: run_skip_def run_forward_def strptime_example)
  have f: "dt_add \<lparr>ordinal = 737425, hour = 0\<rparr>
      (timedelta_hours (forward_option run_skip * integration_length run_skip))
      = Inr \<lparr>ordinal = 737426, hour = 0\<rparr>"
    by (simp add: run_skip_def run_forward_def dt_add_def timedelta_hours_def MAXORDINAL_def Let_def)
  have ne: "strftime_Ymd \<lparr>ordinal = 737425, hour = 0\<rparr> \<noteq> strftime_Ymd \<lparr>ordinal = 737426, hour = 0\<rparr>"
    using strftime_eq_iff[of "\<lparr>ordinal = 737425, hour = 0\<rparr>" "\<lparr>ordinal = 737426, hour = 0\<rparr>"]
    by (simp add: MAXORDINAL_def)
  have a: "dt_add \<lparr>ordinal = 737425, hour = 0\<rparr> (timedelta_days 2) = Inr \<lparr>ordinal = 737427, hour = 0\<rparr>"
    by (simp add: dt_add_def timedelta_days_def MAXORDINAL_def Let_def)
  have e: "era5_store fn \<noteq> None" for fn by (simp add: era5_store_def)
  have over: "read_following era5_store ''/era5'' (timedelta_days 2) \<lparr>ordinal = 737426, hour = 0\<rparr>
      \<lparr>ordinal = 737427, hour = 0\<rparr> nc ds = Some (Inl OverflowError)" for nc ds
    by (rule read_following_overshoot) (simp_all add: e MAXORDINAL_def)
  have "read_following era5_store ''/era5'' (timedelta_days 2) \<lparr>ordinal = 737426, hour = 0\<rparr>
      \<lparr>ordinal = 737425, hour = 0\<rparr> nc ds = Some (Inl OverflowError)" for nc ds
    using ne a over
    by (simp add: read_following.simps[of era5_store "''/era5''" _ "\<lparr>ordinal = 737426, hour = 0\<rparr>"
          "\<lparr>ordinal = 737425, hour = 0\<rparr>"] Let_def era5_store_def)
  then show ?thesis
    using s f by (simp add: discover_def Let_def run_skip_def run_forward_def era5_store_def)
qed

text \<open>
  Claim C10. For a direction of \<open>1\<close> or \<open>-1\<close> and a length that is not negative the
  discovery loop returns on every file system. With \<open>k\<close> the number of calendar days
  between the start date and the final date, the days the cursor visits are the \<open>k\<close>
  days \<open>start + direction * 1\<close>, ..., \<open>start + direction * k\<close>, the last of them the final
  date: each iteration moves the cursor one calendar day towards the final date. When
  the files of these days exist the loop returns normally after exactly \<open>k\<close> iterations,
  having appended the \<open>k\<close> paths and the \<open>k\<close> loaded files of these days in this order;
  when one is missing the loop stops at the first missing one with the fatal error that
  names it; and no normal return appends another number of paths than \<open>k\<close>.
  For another direction the loop's test gives no such guarantee: with direction \<open>2\<close> and
  a final date one day after the start the cursor steps over the final date, the test
  never holds, and on a file system that has every file the loop only stops when the
  date arithmetic overflows.
\<close>

theorem discovery_loop_terminates:
  assumes "strptime_ymdh (start_ymdh cfg) = Inr s"
    and "dt_add s (timedelta_hours (forward_option cfg * integration_length cfg)) = Inr f"
    and "forward_option cfg = 1 \<or> forward_option cfg = -1"
    and "0 \<le> integration_length cfg"
  shows "(\<exists>r. read_following files (input_era5_case cfg) (timedelta_days (1 * forward_option cfg)) f s nc ds
              = Some r
            \<and> (\<forall>nc' ds'. r = Inr (nc', ds') \<longrightarrow>
                  length nc' = length nc + nat \<bar>ordinal f - ordinal s\<bar>)
            \<and> (list_all (\<lambda>n. files (day_path (input_era5_case cfg) n) \<noteq> None)
                  (walk_days (ordinal s) (forward_option cfg) (nat \<bar>ordinal f - ordinal s\<bar>)) \<longrightarrow>
                r = Inr (nc @ map (day_path (input_era5_case cfg))
                                (walk_days (ordinal s) (forward_option cfg) (nat \<bar>ordinal f - ordinal s\<bar>)),
                         ds @ map (\<lambda>n. the (files (day_path (input_era5_case cfg) n)))
                                (walk_days (ordinal s) (forward_option cfg) (nat \<bar>ordinal f - ordinal s\<bar>))))
            \<and> (\<forall>j < nat \<bar>ordinal f - ordinal s\<bar>.
                  list_all (\<lambda>n. files (day_path (input_era5_case cfg) n) \<noteq> None)
                    (walk_days (ordinal s) (forward_option cfg) j)
                  \<and> files (day_path (input_era5_case cfg)
                       (ordinal s + forward_option cfg * (int j + 1))) = None \<longrightarrow>
                  r = Inl (Fatal (cannot_locate (day_path (input_era5_case cfg)
                       (ordinal s + forward_option cfg * (int j + 1)))))))
         \<and> length (walk_days (ordinal s) (forward_option cfg) (nat \<bar>ordinal f - ordinal s\<bar>))
             = nat \<bar>ordinal f - ordinal s\<bar>
         \<and> (\<forall>i < nat \<bar>ordinal f - ordinal s\<bar>.
               walk_days (ordinal s) (forward_option cfg) (nat \<bar>ordinal f - ordinal s\<bar>) ! i
                 = ordinal s + forward_option cfg * (int i + 1)
               \<and> \<bar>ordinal f - (ordinal s + forward_option cfg * (int i + 1))\<bar>
                   = \<bar>ordinal f - ordinal s\<bar> - (int i + 1))
         \<and> ordinal s + forward_option cfg * int (nat \<bar>ordinal f - ordinal s\<bar>) = ordinal f
         \<and> (\<exists>r. discover files cfg = Some r)
         \<and> discover era5_store run_skip = Some (Inl OverflowError)"
proof -
  note sv = strptime_ymdh_valid[OF assms(1)]
  note fv = dt_add_hours[OF assms(2)]
  let ?k = "nat \<bar>ordinal f - ordinal s\<bar>"
  let ?dir = "input_era5_case cfg"
  let ?w = "walk_days (ordinal s) (forward_option cfg)"
  have dist: "ordinal f = ordinal s + forward_option cfg * int ?k"
    by (rule final_day[OF assms(3,4) sv(3,4) assms(2)])
  have loop: "read_following files ?dir (timedelta_days (1 * forward_option cfg)) f s nc ds =
      Some (read_days files ?dir (hour s) (?w ?k) nc ds)"
    using read_following_walk[OF assms(3) sv(3,4) sv(1,2) fv(3,4) dist] by simp
  have len: "length nc' = length nc + ?k"
    if "read_days files ?dir (hour s) (?w ?k) nc ds = Inr (nc', ds')" for nc' ds'
    using read_days_Inr[OF that] by simp
  have all: "read_days files ?dir (hour s) (?w ?k) nc ds
      = Inr (nc @ map (day_path ?dir) (?w ?k), ds @ map (\<lambda>n. the (files (day_path ?dir n))) (?w ?k))"
    if "list_all (\<lambda>n. files (day_path ?dir n) \<noteq> None) (?w ?k)"
    by (rule read_days_all_exist[OF that])
  have miss: "read_days files ?dir (hour s) (?w ?k) nc ds
      = Inl (Fatal (cannot_locate (day_path ?dir (ordinal s + forward_option cfg * (int j + 1)))))"
    if j: "j < ?k"
      and e: "list_all (\<lambda>n. files (day_path ?dir n) \<noteq> None) (?w j)"
      and m: "files (day_path ?dir (ordinal s + forward_option cfg * (int j + 1))) = None"
    for j
  proof -
    have t: "take j (?w ?k) = ?w j"
      using j by (simp add: walk_days_def take_map del: upt_Suc)
    have n: "?w ?k ! j = ordinal s + forward_option cfg * (int j + 1)"
      by (rule walk_days_nth[OF j])
    have "?w ?k = take j (?w ?k) @ (?w ?k ! j) # drop (Suc j) (?w ?k)"
      using j by (simp add: id_take_nth_drop)
    then have sp: "?w ?k = ?w j @ (ordinal s + forward_option cfg * (int j + 1)) # drop (Suc j) (?w ?k)"
      unfolding t n .
    show ?thesis
      by (subst sp) (rule read_days_missing[OF e m])
  qed
  have a: "\<exists>r. read_following files ?dir (timedelta_days (1 * forward_option cfg)) f s nc ds = Some r
            \<and> (\<forall>nc' ds'. r = Inr (nc', ds') \<longrightarrow> length nc' = length nc + ?k)
            \<and> (list_all (\<lambda>n. files (day_path ?dir n) \<noteq> None) (?w ?k) \<longrightarrow>
                r = Inr (nc @ map (day_path ?dir) (?w ?k),
                         ds @ map (\<lambda>n. the (files (day_path ?dir n))) (?w ?k)))
            \<and> (\<forall>j < ?k.
                  list_all (\<lambda>n. files (day_path ?dir n) \<noteq> None) (?w j)
                  \<and> files (day_path ?dir (ordinal s + forward_option cfg * (int j + 1))) = None \<longrightarrow>
                  r = Inl (Fatal (cannot_locate (day_path ?dir
                       (ordinal s + forward_option cfg * (int j + 1))))))"
    unfolding loop using len all miss by blast
  have l: "length (?w ?k) = ?k" by simp
  have closer: "\<bar>ordinal f - (ordinal s + forward_option cfg * (int i + 1))\<bar>
      = \<bar>ordinal f - ordinal s\<bar> - (int i + 1)" if "i < ?k" for i
    using assms(3)
  proof
    assume "forward_option cfg = 1"
    then show ?thesis using dist that by simp
  next
    assume "forward_option cfg = -1"
    then show ?thesis using dist that by simp
  qed
  have w: "\<forall>i < ?k. ?w ?k ! i = ordinal s + forward_option cfg * (int i + 1)
      \<and> \<bar>ordinal f - (ordinal s + forward_option cfg * (int i + 1))\<bar>
          = \<bar>ordinal f - ordinal s\<bar> - (int i + 1)"
    using walk_days_nth closer by blast
  have b: "\<exists>r. discover files cfg = Some r"
    by (rule discover_total[OF assms(3,4)])
  show ?thesis using a l w dist[symmetric] b discover_run_skip by blast
qed

theorem discovery_loop_terminates_witness:
  "strptime_ymdh (start_ymdh run_backward) = Inr (d_strt_t found_backward)
   \<and> nat \<bar>ordinal (d_final_t found_backward) - ordinal (d_strt_t found_backward)\<bar> = 2
   \<and> walk_days (ordinal (d_strt_t found_backward)) (- 1) 2 = [737424, 737423]
   \<and> read_following era5_store ''/era5'' (timedelta_days (1 * (- 1)))
        (d_final_t found_backward) (d_strt_t found_backward) [''/era5/20200101-pl.grib''] [day_dataset 737425]
      = Some (Inr ([''/era5/20200101-pl.grib'', ''/era5/20191231-pl.grib'', ''/era5/20191230-pl.grib''],
                   [day_dataset 737425, day_dataset 737424, day_dataset 737423]))
   \<and> read_following (era5_store_without 737423) ''/era5'' (timedelta_days (1 * (- 1)))
        (d_final_t found_backward) (d_strt_t found_backward) [''/era5/20200101-pl.grib''] [day_dataset 737425]
      = Some (Inl (Fatal (cannot_locate ''/era5/20191230-pl.grib'')))"
proof -
  have s: "strptime_ymdh (start_ymdh run_backward) = Inr (d_strt_t found_backward)"
    by (simp add: run_backward_def run_forward_def strptime_example found_backward_def)
  have f: "dt_add (d_strt_t found_backward)
      (timedelta_hours (forward_option run_backward * integration_length run_backward))
      = Inr (d_final_t found_backward)"
    using dt_add_examples(2) by (simp add: run_backward_def run_forward_def found_backward_def)
  have fw: "forward_option run_backward = 1 \<or> forward_option run_backward = -1"
    and L: "0 \<le> integration_length run_backward"
    by (simp_all add: run_backward_def run_forward_def)
  have v: "input_era5_case run_backward = ''/era5''" "forward_option run_backward = -1"
    by (simp_all add: run_backward_def run_forward_def)
  have k: "nat \<bar>ordinal (d_final_t found_backward) - ordinal (d_strt_t found_backward)\<bar> = 2"
    by (simp add: found_backward_def)
  have o: "ordinal (d_strt_t found_backward) = 737425"
    by (simp add: found_backward_def)
  have w: "walk_days (ordinal (d_strt_t found_backward)) (- 1) 2 = [737424, 737423]"
    unfolding o by (rule walk_days_examples(2))
  have w1: "walk_days (ordinal (d_strt_t found_backward)) (- 1) (Suc 0) = [737424]"
    unfolding o by (simp add: walk_days_def)
  have e: "era5_store (day_path ''/era5'' 737424) = Some (day_dataset 737424)"
    "era5_store (day_path ''/era5'' 737423) = Some (day_dataset 737423)"
    by (simp_all add: era5_store_day MAXORDINAL_def)
  have fd: "file_date ''/era5'' (day_path ''/era5'' 737424) = 737424"
    "file_date ''/era5'' (day_path ''/era5'' 737423) = 737423"
    by (simp_all add: file_date_day_path MAXORDINAL_def)
  have e': "era5_store_without 737423 (day_path ''/era5'' 737424) = Some (day_dataset 737424)"
    "era5_store_without 737423 (day_path ''/era5'' 737423) = None"
    by (simp_all add: era5_store_without_def fd e)
  have ex: "list_all (\<lambda>n. era5_store (day_path ''/era5'' n) \<noteq> None)
      (walk_days (ordinal (d_strt_t found_backward)) (- 1) 2)"
    unfolding w by (simp add: e)
  have ex': "list_all (\<lambda>n. era5_store_without 737423 (day_path ''/era5'' n) \<noteq> None)
      (walk_days (ordinal (d_strt_t found_backward)) (- 1) (Suc 0))"
    unfolding w1 by (simp add: e')
  have m': "era5_store_without 737423 (day_path ''/era5''
      (ordinal (d_strt_t found_backward) + - 1 * (int (Suc 0) + 1))) = None"
    unfolding o by (simp add: e')
  from discovery_loop_terminates[OF s f fw L, of era5_store "[''/era5/20200101-pl.grib'']" "[day_dataset 737425]"]
  have "read_following era5_store ''/era5'' (timedelta_days (1 * (- 1)))
        (d_final_t found_backward) (d_strt_t found_backward) [''/era5/20200101-pl.grib''] [day_dataset 737425]
      = Some (Inr ([''/era5/20200101-pl.grib''] @ map (day_path ''/era5'')
                       (walk_days (ordinal (d_strt_t found_backward)) (- 1) 2),
                   [day_dataset 737425] @ map (\<lambda>n. the (era5_store (day_path ''/era5'' n)))
                       (walk_days (ordinal (d_strt_t found_backward)) (- 1) 2)))"
    unfolding v k using ex by blast
  then have a: "read_following era5_store ''/era5'' (timedelta_days (1 * (- 1)))
        (d_final_t found_backward) (d_strt_t found_backward) [''/era5/20200101-pl.grib''] [day_dataset 737425]
      = Some (Inr ([''/era5/20200101-pl.grib'', ''/era5/20191231-pl.grib'', ''/era5/20191230-pl.grib''],
                   [day_dataset 737425, day_dataset 737424, day_dataset 737423]))"
    unfolding w by (simp add: e) (simp add: day_path_examples)
  from discovery_loop_terminates[OF s f fw L, of "era5_store_without 737423"
      "[''/era5/20200101-pl.grib'']" "[day_dataset 737425]"]
  have "read_following (era5_store_without 737423) ''/era5'' (timedelta_days (1 * (- 1)))
        (d_final_t found_backward) (d_strt_t found_backward) [''/era5/20200101-pl.grib''] [day_dataset 737425]
      = Some (Inl (Fatal (cannot_locate (day_path ''/era5''
           (ordinal (d_strt_t found_backward) + - 1 * (int (Suc 0) + 1))))))"
    unfolding v k using ex' m' by (metis lessI numeral_2_eq_2)
  then have b: "read_following (era5_store_without 737423) ''/era5'' (timedelta_days (1 * (- 1)))
        (d_final_t found_backward) (d_strt_t found_backward) [''/era5/20200101-pl.grib''] [day_dataset 737425]
      = Some (Inl (Fatal (cannot_locate ''/era5/20191230-pl.grib'')))"
    unfolding o by (simp add: day_path_examples)
  show ?thesis using s k w a b by blast
qed

lemma construct_Inr:
  assumes "construct files cfg = Some (Inr r)"
  shows "\<exists>d p. discover files cfg = Some (Inr d) \<and> prepare cfg d = Inr p \<and> finish cfg d p = Inr r"
  using assms unfolding construct_def
  by (auto split: option.splits sum.splits)

lemma finish_Inr:
  assumes "finish cfg d p = Inr r"
  shows "\<not> any_isnan (p_U p)" "\<not> any_isnan (p_V p)" "\<not> any_isnan (p_W p)" "\<not> boundary_check cfg"
    and "r = \<lparr>strt_t = d_strt_t d, forward = d_forward d, final_t = d_final_t d,
              nc_pres_files = d_nc_pres_files d,
              drv_fld_dt = p_drv_fld_dt p, step_per_inpf = p_step_per_inpf p,
              U = p_U p, V = p_V p, W = p_W p,
              xlat = ds_latitude (p_comb_ds p), xlon = ds_longitude (p_comb_ds p),
              xz = ds_isobaricInhPa (p_comb_ds p),
              inp_nfrm = length (da_time (p_U p))\<rparr>"
  using assms unfolding finish_def throw_error_def
  by (auto split: if_splits)

lemma discover_first_missing:
  assumes s: "strptime_ymdh (start_ymdh cfg) = Inr s"
    and f: "dt_add s (timedelta_hours (forward_option cfg * integration_length cfg)) = Inr f"
    and fw: "forward_option cfg = 1 \<or> forward_option cfg = -1"
    and L: "0 \<le> integration_length cfg"
    and req: "ordinal s # walk_days (ordinal s) (forward_option cfg) (nat \<bar>ordinal f - ordinal s\<bar>)
                = pre @ m # post"
    and pre: "list_all (\<lambda>n. files (day_path (input_era5_case cfg) n) \<noteq> None) pre"
    and m: "files (day_path (input_era5_case cfg) m) = None"
  shows "discover files cfg = Some (Inl (Fatal (cannot_locate (day_path (input_era5_case cfg) m))))"
proof (cases pre)
  case Nil
  then have "m = ordinal s" using req by simp
  then show ?thesis
    using m by (simp add: discover_walk[OF s fw L f])
next
  case (Cons p pre')
  have "ordinal s # walk_days (ordinal s) (forward_option cfg) (nat \<bar>ordinal f - ordinal s\<bar>)
      = p # (pre' @ m # post)"
    using req unfolding Cons by (simp only: append_Cons)
  then have p: "p = ordinal s"
    and w: "walk_days (ordinal s) (forward_option cfg) (nat \<bar>ordinal f - ordinal s\<bar>) = pre' @ m # post"
    unfolding list.inject by blast+
  obtain d0 where d0: "files (day_path (input_era5_case cfg) (ordinal s)) = Some d0"
    using pre Cons p by auto
  have pre': "list_all (\<lambda>n. files (day_path (input_era5_case cfg) n) \<noteq> None) pre'"
    using pre Cons by simp
  show ?thesis
    by (simp add: discover_walk[OF s fw L f] d0 w read_days_missing[OF pre' m])
qed

text \<open>
  Claim C7. The required files of a valid configuration are those of the start day and
  of every day the walk visits. If one of them is missing while those before it exist,
  the constructor ends with the fatal error whose message contains that path; it
  returns an object only if every required file exists, and the object then lists
  exactly the required paths: nothing is retried, skipped or returned in part.
\<close>

theorem missing_file_aborts:
  assumes "strptime_ymdh (start_ymdh cfg) = Inr s"
    and "dt_add s (timedelta_hours (forward_option cfg * integration_length cfg)) = Inr f"
    and "forward_option cfg = 1 \<or> forward_option cfg = -1"
    and "0 \<le> integration_length cfg"
    and "required = ordinal s # walk_days (ordinal s) (forward_option cfg) (nat \<bar>ordinal f - ordinal s\<bar>)"
  shows "(\<forall>pre m post.
            required = pre @ m # post
            \<and> list_all (\<lambda>n. files (day_path (input_era5_case cfg) n) \<noteq> None) pre
            \<and> files (day_path (input_era5_case cfg) m) = None
            \<longrightarrow> construct files cfg =
                  Some (Inl (Fatal (print_prefix @ ''cannot locate:'' @ day_path (input_era5_case cfg) m
                                    @ '', please check files or settings!''))))
         \<and> (\<forall>r. construct files cfg = Some (Inr r)
              \<longrightarrow> list_all (\<lambda>n. files (day_path (input_era5_case cfg) n) \<noteq> None) required
                  \<and> nc_pres_files r = map (day_path (input_era5_case cfg)) required)"
proof (intro conjI allI impI)
  fix pre m post
  assume a: "required = pre @ m # post
            \<and> list_all (\<lambda>n. files (day_path (input_era5_case cfg) n) \<noteq> None) pre
            \<and> files (day_path (input_era5_case cfg) m) = None"
  then have req: "ordinal s # walk_days (ordinal s) (forward_option cfg) (nat \<bar>ordinal f - ordinal s\<bar>)
                = pre @ m # post"
    using assms(5) by simp
  have "discover files cfg = Some (Inl (Fatal (cannot_locate (day_path (input_era5_case cfg) m))))"
    using a by (intro discover_first_missing[OF assms(1-4) req]) simp_all
  then show "construct files cfg =
      Some (Inl (Fatal (print_prefix @ ''cannot locate:'' @ day_path (input_era5_case cfg) m
                        @ '', please check files or settings!'')))"
    by (simp add: construct_def cannot_locate_def)
next
  fix r
  assume "construct files cfg = Some (Inr r)"
  then obtain d p where d: "discover files cfg = Some (Inr d)" and p: "prepare cfg d = Inr p"
    and r: "finish cfg d p = Inr r"
    using construct_Inr by blast
  note k = discover_Inr_fields[OF d]
  have sf: "d_strt_t d = s" "d_final_t d = f" using k(1,2) assms(1,2) by simp_all
  have "map Some (d_ds_grib d) = map (\<lambda>n. files (day_path (input_era5_case cfg) n)) required"
    using discover_Inr_lists(2)[OF d assms(3,4)] unfolding sf assms(5) .
  then have "files (day_path (input_era5_case cfg) n) \<noteq> None" if "n \<in> set required" for n
  proof -
    have "files (day_path (input_era5_case cfg) n) \<in> set (map Some (d_ds_grib d))"
      using that \<open>map Some (d_ds_grib d) = _\<close> by simp
    then show ?thesis by auto
  qed
  then show "list_all (\<lambda>n. files (day_path (input_era5_case cfg) n) \<noteq> None) required"
    by (simp add: list_all_iff)
  have "nc_pres_files r = d_nc_pres_files d"
    by (subst finish_Inr(5)[OF r]) simp
  then show "nc_pres_files r = map (day_path (input_era5_case cfg)) required"
    using discover_Inr_lists(1)[OF d assms(3,4)] unfolding sf assms(5) by simp
qed

theorem missing_file_aborts_witness:
  "strptime_ymdh (start_ymdh run_backward) = Inr (d_strt_t found_backward)
   \<and> [737425, 737424, 737423] = [737425] @ 737424 # [737423]
   \<and> era5_store_without 737424 (day_path ''/era5'' 737425) \<noteq> None
   \<and> era5_store_without 737424 (day_path ''/era5'' 737424) = None
   \<and> construct (era5_store_without 737424) run_backward =
       Some (Inl (Fatal ''lib.preprocess_era5inp>>cannot locate:/era5/20191231-pl.grib, please check files or settings!''))"
proof -
  have s: "strptime_ymdh (start_ymdh run_backward) = Inr (d_strt_t found_backward)"
    by (simp add: run_backward_def run_forward_def strptime_example found_backward_def)
  have f: "dt_add (d_strt_t found_backward)
      (timedelta_hours (forward_option run_backward * integration_length run_backward))
      = Inr (d_final_t found_backward)"
    using dt_add_examples(2) by (simp add: run_backward_def run_forward_def found_backward_def)
  have fw: "forward_option run_backward = 1 \<or> forward_option run_backward = -1"
    and L: "0 \<le> integration_length run_backward"
    by (simp_all add: run_backward_def run_forward_def)
  have req: "[737425, 737424, 737423] = ordinal (d_strt_t found_backward)
      # walk_days (ordinal (d_strt_t found_backward)) (forward_option run_backward)
          (nat \<bar>ordinal (d_final_t found_backward) - ordinal (d_strt_t found_backward)\<bar>)"
    by (simp add: found_backward_def run_backward_def run_forward_def walk_days_examples)
  have v: "input_era5_case run_backward = ''/era5''"
    by (simp add: run_backward_def run_forward_def)
  have e1: "era5_store_without 737424 (day_path ''/era5'' 737425) \<noteq> None"
    by (simp add: era5_store_without_def era5_store_def file_date_day_path MAXORDINAL_def)
  have e2: "era5_store_without 737424 (day_path ''/era5'' 737424) = None"
    by (simp add: era5_store_without_def file_date_day_path MAXORDINAL_def)
  have split: "[737425, 737424, 737423] = [737425] @ 737424 # [737423::int]" by simp
  from missing_file_aborts[OF s f fw L req, of "era5_store_without 737424"]
  have "construct (era5_store_without 737424) run_backward =
      Some (Inl (Fatal (print_prefix @ ''cannot locate:'' @ day_path ''/era5'' 737424
                        @ '', please check files or settings!'')))"
    unfolding v using split e1 e2 by (elim conjE allE[of _ "[737425]"] allE[of _ 737424] allE[of _ "[737423]"]) simp
  then have "construct (era5_store_without 737424) run_backward =
       Some (Inl (Fatal ''lib.preprocess_era5inp>>cannot locate:/era5/20191231-pl.grib, please check files or settings!''))"
    by (simp add: print_prefix_def day_path_examples)
  then show ?thesis using s e1 e2 by simp
qed

subsection \<open>The stages after discovery\<close>

lemma prepare_Inr:
  assumes "prepare cfg d = Inr p"
  shows "\<exists>slice_start slice_end comb0.
           orient d = (fst (orient d), Some (slice_start, slice_end))
           \<and> concat_time (fst (orient d)) = Inr comb0
           \<and> lon_normalize comb0 = Inr (p_comb_ds p)
           \<and> frame_interval (p_comb_ds p) = Inr (p_drv_fld_dt p)
           \<and> steps_per_frame (p_drv_fld_dt p) (time_step cfg) = Inr (p_step_per_inpf p)
           \<and> loc_slice slice_start slice_end (ds_time (p_comb_ds p)) (ds_u (p_comb_ds p)) = Inr (p_U p)
           \<and> loc_slice slice_start slice_end (ds_time (p_comb_ds p)) (ds_v (p_comb_ds p)) = Inr (p_V p)
           \<and> loc_slice slice_start slice_end (ds_time (p_comb_ds p)) (ds_w (p_comb_ds p)) = Inr (p_W p)"
proof -
  obtain dss bounds where o: "orient d = (dss, bounds)" by (cases "orient d")
  from assms o obtain comb0 where c: "concat_time dss = Inr comb0"
    by (cases "concat_time dss") (simp_all add: prepare_def)
  from assms o c obtain comb where n: "lon_normalize comb0 = Inr comb"
    by (cases "lon_normalize comb0") (simp_all add: prepare_def)
  from assms o c n obtain drv where i: "frame_interval comb = Inr drv"
    by (cases "frame_interval comb") (simp_all add: prepare_def)
  from assms o c n i obtain spf where s: "steps_per_frame drv (time_step cfg) = Inr spf"
    by (cases "steps_per_frame drv (time_step cfg)") (simp_all add: prepare_def)
  from assms o c n i s obtain lo hi where b: "bounds = Some (lo, hi)"
    by (cases bounds) (auto simp: prepare_def)
  from assms o c n i s b obtain Ua where u: "loc_slice lo hi (ds_time comb) (ds_u comb) = Inr Ua"
    by (cases "loc_slice lo hi (ds_time comb) (ds_u comb)") (simp_all add: prepare_def)
  from assms o c n i s b u obtain Va where v: "loc_slice lo hi (ds_time comb) (ds_v comb) = Inr Va"
    by (cases "loc_slice lo hi (ds_time comb) (ds_v comb)") (simp_all add: prepare_def)
  from assms o c n i s b u v obtain Wa where w: "loc_slice lo hi (ds_time comb) (ds_w comb) = Inr Wa"
    by (cases "loc_slice lo hi (ds_time comb) (ds_w comb)") (simp_all add: prepare_def)
  from assms o c n i s b u v w
  have p: "p = \<lparr>p_comb_ds = comb, p_drv_fld_dt = drv, p_step_per_inpf = spf, p_U = Ua, p_V = Va, p_W = Wa\<rparr>"
    by (simp add: prepare_def)
  have "orient d = (fst (orient d), Some (lo, hi))
           \<and> concat_time (fst (orient d)) = Inr comb0
           \<and> lon_normalize comb0 = Inr (p_comb_ds p)
           \<and> frame_interval (p_comb_ds p) = Inr (p_drv_fld_dt p)
           \<and> steps_per_frame (p_drv_fld_dt p) (time_step cfg) = Inr (p_step_per_inpf p)
           \<and> loc_slice lo hi (ds_time (p_comb_ds p)) (ds_u (p_comb_ds p)) = Inr (p_U p)
           \<and> loc_slice lo hi (ds_time (p_comb_ds p)) (ds_v (p_comb_ds p)) = Inr (p_V p)
           \<and> loc_slice lo hi (ds_time (p_comb_ds p)) (ds_w (p_comb_ds p)) = Inr (p_W p)"
    using o c n i s b u v w by (simp add: p)
  then show ?thesis by blast
qed

lemma lon_normalize_time:
  assumes "lon_normalize comb0 = Inr comb"
  shows "ds_time comb = ds_time comb0"
  using assms by (auto simp: lon_normalize_def Let_def split: if_splits)

lemma concat_time_time:
  assumes "concat_time dss = Inr comb0"
  shows "ds_time comb0 = concat (map ds_time dss)"
  using assms by (auto simp: concat_time_def split: list.splits if_splits)

lemma construct_eq_finish:
  assumes "discover files cfg = Some (Inr d)" "prepare cfg d = Inr p"
  shows "construct files cfg = Some (finish cfg d p)"
  using assms by (simp add: construct_def)

lemma any_isnan_iff: "any_isnan a \<longleftrightarrow> (\<exists>i j k l. nan_at a i j k l)"
proof
  assume "any_isnan a"
  then obtain x1 x2 x3 x4 where x: "x1 \<in> set (da_values a)" "x2 \<in> set x1" "x3 \<in> set x2" "x4 \<in> set x3"
    "isnan x4"
    unfolding any_isnan_def list_ex_iff by blast
  from x(1) obtain i where i: "i < length (da_values a)" "da_values a ! i = x1"
    by (auto simp: in_set_conv_nth)
  from x(2) obtain j where j: "j < length x1" "x1 ! j = x2" by (auto simp: in_set_conv_nth)
  from x(3) obtain k where k: "k < length x2" "x2 ! k = x3" by (auto simp: in_set_conv_nth)
  from x(4) obtain l where l: "l < length x3" "x3 ! l = x4" by (auto simp: in_set_conv_nth)
  have "x4 = NaN" using x(5) by (cases x4) (simp_all add: isnan_def)
  then have "nan_at a i j k l" using i j k l by (simp add: nan_at_def)
  then show "\<exists>i j k l. nan_at a i j k l" by blast
next
  assume "\<exists>i j k l. nan_at a i j k l"
  then obtain i j k l where n: "nan_at a i j k l" by blast
  then have "da_values a ! i \<in> set (da_values a)" "da_values a ! i ! j \<in> set (da_values a ! i)"
    "da_values a ! i ! j ! k \<in> set (da_values a ! i ! j)"
    "da_values a ! i ! j ! k ! l \<in> set (da_values a ! i ! j ! k)"
    "isnan (da_values a ! i ! j ! k ! l)"
    unfolding nan_at_def by (simp_all add: isnan_def nth_mem del: nth_mem) (metis nth_mem)+
  then show "any_isnan a" unfolding any_isnan_def list_ex_iff by blast
qed

lemma index_of_Cons:
  "index_of (y # ys) x = (if y = x then 0 else Suc (index_of ys x))"
  by (simp add: index_of_def)

lemma index_of_Nil: "index_of [] x = 0"
  by (simp add: index_of_def)

lemma lon_normalize_example:
  "lon_normalize \<lparr>ds_time = ts, ds_isobaricInhPa = [500], ds_latitude = [0],
       ds_longitude = [-180, -90, 0, 90], ds_u = us, ds_v = vs, ds_w = ws\<rparr>
   = Inr \<lparr>ds_time = ts, ds_isobaricInhPa = [500], ds_latitude = [0],
          ds_longitude = [0, 90, 180, 270],
          ds_u = take_lon [2, 3, 0, 1] us, ds_v = take_lon [2, 3, 0, 1] vs,
          ds_w = take_lon [2, 3, 0, 1] ws\<rparr>"
  by (simp add: lon_normalize_def nanmin_def where_negative_def Let_def index_of_Cons index_of_Nil
      numeral_2_eq_2 numeral_3_eq_3)

lemma take_lon_frames:
  "take_lon [2, 3, 0, Suc 0] (u_frame # fs) = u_sorted # take_lon [2, 3, 0, Suc 0] fs"
  "take_lon [2, 3, 0, Suc 0] (v_frame # fs) = v_sorted # take_lon [2, 3, 0, Suc 0] fs"
  "take_lon [2, 3, 0, Suc 0] (w_frame # fs) = w_frame # take_lon [2, 3, 0, Suc 0] fs"
  "take_lon idx [] = []"
  by (simp_all add: take_lon_def u_frame_def u_sorted_def v_frame_def v_sorted_def w_frame_def)

lemma frame_times_values:
  "frame_times 737425 [0, 6, 12, 18] =
     [1577836800000000000, 1577858400000000000, 1577880000000000000, 1577901600000000000]"
  "frame_times 737426 [0, 6, 12, 18] =
     [1577923200000000000, 1577944800000000000, 1577966400000000000, 1577988000000000000]"
  "frame_times 737426 [0, 6] = [1577923200000000000, 1577944800000000000]"
  "to_ns \<lparr>ordinal = 737425, hour = 0\<rparr> = 1577836800000000000"
  "to_ns \<lparr>ordinal = 737426, hour = 6\<rparr> = 1577944800000000000"
  by (simp_all add: frame_times_def to_ns_def)

lemma take_lon_nan:
  "take_lon [2, 3, 0, Suc 0] (w_nan # fs) = w_nan_sorted # take_lon [2, 3, 0, Suc 0] fs"
  by (simp add: take_lon_def w_nan_def w_nan_sorted_def)

lemma discover_flags:
  "discover files (cfg\<lparr>time_step := ts, boundary_check := b\<rparr>) = discover files cfg"
  by (simp add: discover_def Let_def split: sum.splits option.splits)

lemma orient_found_forward:
  "orient (found_forward\<lparr>d_ds_grib := dss\<rparr>) =
      (dss, Some (\<lparr>ordinal = 737425, hour = 0\<rparr>, \<lparr>ordinal = 737426, hour = 6\<rparr>))"
  by (simp add: orient_def found_forward_def)

lemma prepare_run_forward_steps:
  assumes "ts \<noteq> 0"
  shows "prepare (run_forward\<lparr>time_step := ts, boundary_check := b\<rparr>) found_forward
           = Inr (prepared_forward\<lparr>p_step_per_inpf := 21600 / real_of_int (ts * 60)\<rparr>)"
proof -
  have o: "orient found_forward =
      ([day_dataset 737425, day_dataset 737426],
       Some (\<lparr>ordinal = 737425, hour = 0\<rparr>, \<lparr>ordinal = 737426, hour = 6\<rparr>))"
    by (simp add: orient_def found_forward_def)
  have c: "concat_time [day_dataset 737425, day_dataset 737426] =
      Inr \<lparr>ds_time = frame_times 737425 [0, 6, 12, 18] @ frame_times 737426 [0, 6, 12, 18],
           ds_isobaricInhPa = [500], ds_latitude = [0], ds_longitude = [-180, -90, 0, 90],
           ds_u = [u_frame, u_frame, u_frame, u_frame, u_frame, u_frame, u_frame, u_frame],
           ds_v = [v_frame, v_frame, v_frame, v_frame, v_frame, v_frame, v_frame, v_frame],
           ds_w = [w_frame, w_frame, w_frame, w_frame, w_frame, w_frame, w_frame, w_frame]\<rparr>"
    by (simp add: concat_time_def day_dataset_def same_grid_def)
  show ?thesis
    using assms
    by (simp add: prepare_def o c lon_normalize_example take_lon_frames frame_interval_def steps_per_frame_def
        loc_slice_def frame_times_values prepared_forward_def Let_def)
qed

lemma prepare_run_forward: "prepare run_forward found_forward = Inr prepared_forward"
proof -
  have "run_forward\<lparr>time_step := 30, boundary_check := False\<rparr> = run_forward"
    by (simp add: run_forward_def)
  moreover have "prepared_forward\<lparr>p_step_per_inpf := 21600 / real_of_int (30 * 60)\<rparr> = prepared_forward"
    by (simp add: prepared_forward_def)
  ultimately show ?thesis
    using prepare_run_forward_steps[of 30 False] by simp
qed

lemma no_nan_prepared_forward:
  "\<not> any_isnan (p_U prepared_forward)" "\<not> any_isnan (p_V prepared_forward)"
  "\<not> any_isnan (p_W prepared_forward)"
  by (simp_all add: prepared_forward_def any_isnan_def isnan_def u_sorted_def v_sorted_def w_frame_def)

lemma construct_run_forward: "construct era5_store run_forward = Some (Inr built_forward)"
proof -
  have "construct era5_store run_forward = Some (finish run_forward found_forward prepared_forward)"
    by (rule construct_eq_finish[OF discover_run_forward prepare_run_forward])
  also have "finish run_forward found_forward prepared_forward = Inr built_forward"
    using no_nan_prepared_forward
    by (simp add: finish_def built_forward_def run_forward_def found_forward_def)
      (simp add: prepared_forward_def frame_times_def)
  finally show ?thesis .
qed

lemma discover_nan_forward:
  "discover (era5_store_nan 737425) run_forward = Some (Inr found_nan_forward)"
proof -
  have s: "strptime_ymdh (start_ymdh run_forward) = Inr \<lparr>ordinal = 737425, hour = 0\<rparr>"
    by (simp add: run_forward_def strptime_example)
  have f: "dt_add \<lparr>ordinal = 737425, hour = 0\<rparr>
      (timedelta_hours (forward_option run_forward * integration_length run_forward))
      = Inr \<lparr>ordinal = 737426, hour = 6\<rparr>"
    using dt_add_examples(1) by (simp add: run_forward_def)
  have e: "era5_store_nan 737425 (day_path ''/era5'' 737425) = Some (nan_dataset 737425)"
    "era5_store_nan 737425 (day_path ''/era5'' 737426) = Some (day_dataset 737426)"
    by (simp_all add: era5_store_nan_def era5_store_def file_date_day_path MAXORDINAL_def)
  have "discover (era5_store_nan 737425) run_forward = Some (Inr
      \<lparr>d_strt_t = \<lparr>ordinal = 737425, hour = 0\<rparr>, d_forward = 1,
       d_final_t = \<lparr>ordinal = 737426, hour = 6\<rparr>,
       d_nc_pres_files = [day_path ''/era5'' 737425, day_path ''/era5'' 737426],
       d_ds_grib = [nan_dataset 737425, day_dataset 737426]\<rparr>)"
    by (subst discover_walk[OF s _ _ f])
      (simp_all add: run_forward_def walk_days_examples e pres_path_day Let_def)
  then show ?thesis by (simp add: found_nan_forward_def found_forward_def day_path_examples)
qed

lemma prepare_nan_forward: "prepare run_forward found_nan_forward = Inr prepared_nan_forward"
proof -
  have c: "concat_time [nan_dataset 737425, day_dataset 737426] =
      Inr \<lparr>ds_time = frame_times 737425 [0, 6, 12, 18] @ frame_times 737426 [0, 6, 12, 18],
           ds_isobaricInhPa = [500], ds_latitude = [0], ds_longitude = [-180, -90, 0, 90],
           ds_u = [u_frame, u_frame, u_frame, u_frame, u_frame, u_frame, u_frame, u_frame],
           ds_v = [v_frame, v_frame, v_frame, v_frame, v_frame, v_frame, v_frame, v_frame],
           ds_w = [w_frame, w_frame, w_nan, w_frame, w_frame, w_frame, w_frame, w_frame]\<rparr>"
    by (simp add: concat_time_def day_dataset_def nan_dataset_def same_grid_def)
  show ?thesis
    by (simp add: prepare_def found_nan_forward_def orient_found_forward c lon_normalize_example
        take_lon_frames take_lon_nan frame_interval_def steps_per_frame_def
        loc_slice_def frame_times_values run_forward_def prepared_nan_forward_def prepared_forward_def Let_def)
qed

subsection \<open>Sampling interval, boundary check and validation\<close>

text \<open>
  Claim C8. On a constructed object \<open>drv_fld_dt\<close> is the difference, in seconds, between
  the first two time coordinates of the concatenated series, and \<open>step_per_inpf\<close> is that
  number divided by \<open>time_step * 60\<close>, whatever the quotient is: nothing rounds it or
  rejects a fraction. With 21600 seconds between frames and a step of 30 minutes it is 12.
\<close>

theorem sampling_interval_and_steps:
  assumes "construct files cfg = Some (Inr r)"
  shows "\<exists>d t0 t1 rest.
           discover files cfg = Some (Inr d)
           \<and> concat (map ds_time (fst (orient d))) = t0 # t1 # rest
           \<and> drv_fld_dt r = real_of_int (t1 - t0) / 1000000000
           \<and> step_per_inpf r = drv_fld_dt r / real_of_int (time_step cfg * 60)
           \<and> (drv_fld_dt r = 21600 \<and> time_step cfg = 30 \<longrightarrow> step_per_inpf r = 12)"
proof -
  from assms obtain d p where d: "discover files cfg = Some (Inr d)" and p: "prepare cfg d = Inr p"
    and r: "finish cfg d p = Inr r"
    using construct_Inr by blast
  from prepare_Inr[OF p] obtain comb0 where
    c: "concat_time (fst (orient d)) = Inr comb0" and n: "lon_normalize comb0 = Inr (p_comb_ds p)"
    and i: "frame_interval (p_comb_ds p) = Inr (p_drv_fld_dt p)"
    and s: "steps_per_frame (p_drv_fld_dt p) (time_step cfg) = Inr (p_step_per_inpf p)"
    by blast
  have t: "ds_time (p_comb_ds p) = concat (map ds_time (fst (orient d)))"
    using lon_normalize_time[OF n] concat_time_time[OF c] by simp
  from i obtain t0 t1 rest where ts: "ds_time (p_comb_ds p) = t0 # t1 # rest"
    and drv: "p_drv_fld_dt p = real_of_int (t1 - t0) / 1000000000"
    by (auto simp: frame_interval_def split: list.splits)
  from s have spf: "p_step_per_inpf p = p_drv_fld_dt p / real_of_int (time_step cfg * 60)"
    by (auto simp: steps_per_frame_def split: if_splits)
  have rr: "drv_fld_dt r = p_drv_fld_dt p" "step_per_inpf r = p_step_per_inpf p"
    by (subst finish_Inr(5)[OF r], simp)+
  have e1: "concat (map ds_time (fst (orient d))) = t0 # t1 # rest" using t ts by simp
  have e2: "drv_fld_dt r = real_of_int (t1 - t0) / 1000000000" using drv rr(1) by simp
  have e3: "step_per_inpf r = drv_fld_dt r / real_of_int (time_step cfg * 60)" using spf rr by simp
  have e4: "drv_fld_dt r = 21600 \<and> time_step cfg = 30 \<longrightarrow> step_per_inpf r = 12"
    using e3 by simp
  show ?thesis using d e1 e2 e3 e4 by blast
qed

theorem sampling_interval_and_steps_witness:
  "construct era5_store run_forward = Some (Inr built_forward)
   \<and> drv_fld_dt built_forward = 21600 \<and> time_step run_forward = 30
   \<and> step_per_inpf built_forward = 12
   \<and> (\<exists>r. construct era5_store (run_forward\<lparr>time_step := 7, boundary_check := False\<rparr>) = Some (Inr r)
          \<and> step_per_inpf r = 360 / 7)"
proof -
  have v: "drv_fld_dt built_forward = 21600" "time_step run_forward = 30"
    by (simp_all add: built_forward_def run_forward_def)
  from sampling_interval_and_steps[OF construct_run_forward] v
  have a: "step_per_inpf built_forward = 12" by blast
  let ?cfg = "run_forward\<lparr>time_step := 7, boundary_check := False\<rparr>"
  let ?p = "prepared_forward\<lparr>p_step_per_inpf := 21600 / real_of_int (7 * 60)\<rparr>"
  have d: "discover era5_store ?cfg = Some (Inr found_forward)"
    by (simp only: discover_flags discover_run_forward)
  have p: "prepare ?cfg found_forward = Inr ?p"
    by (rule prepare_run_forward_steps) simp
  have "construct era5_store ?cfg = Some (finish ?cfg found_forward ?p)"
    by (rule construct_eq_finish[OF d p])
  moreover obtain r where f: "finish ?cfg found_forward ?p = Inr r" and drv: "drv_fld_dt r = 21600"
    using no_nan_prepared_forward
    by (simp add: finish_def run_forward_def) (simp add: prepared_forward_def)
  ultimately have c: "construct era5_store ?cfg = Some (Inr r)" by simp
  have ts: "time_step ?cfg = 7" by simp
  from sampling_interval_and_steps[OF c]
  have "step_per_inpf r = drv_fld_dt r / real_of_int (time_step ?cfg * 60)" by blast
  then have "step_per_inpf r = 360 / 7" unfolding drv ts by simp
  with c have b: "\<exists>r. construct era5_store ?cfg = Some (Inr r) \<and> step_per_inpf r = 360 / 7"
    by blast
  show ?thesis using construct_run_forward v a b by blast
qed

text \<open>
  Claim C9 does not hold of the code. With the boundary-check flag set the constructor
  never returns an object: a run that passes every earlier step ends at line 152 with a
  \<^verbatim>\<open>NameError\<close> for the unbound name \<^verbatim>\<open>fn_timestamp\<close>, before any single-level file
  is resolved or opened.
\<close>

theorem boundary_check_raises:
  assumes "boundary_check cfg"
  shows "(\<forall>r. construct files cfg \<noteq> Some (Inr r))
         \<and> (\<forall>d p. discover files cfg = Some (Inr d) \<and> prepare cfg d = Inr p
                \<and> \<not> any_isnan (p_U p) \<and> \<not> any_isnan (p_V p) \<and> \<not> any_isnan (p_W p)
              \<longrightarrow> construct files cfg = Some (Inl (NameError ''fn_timestamp'')))"
proof (intro conjI allI impI)
  fix r
  show "construct files cfg \<noteq> Some (Inr r)"
  proof
    assume "construct files cfg = Some (Inr r)"
    then obtain d p where "finish cfg d p = Inr r" using construct_Inr by blast
    from finish_Inr(4)[OF this] assms show False by simp
  qed
next
  fix d p
  assume a: "discover files cfg = Some (Inr d) \<and> prepare cfg d = Inr p
      \<and> \<not> any_isnan (p_U p) \<and> \<not> any_isnan (p_V p) \<and> \<not> any_isnan (p_W p)"
  then have "construct files cfg = Some (finish cfg d p)"
    by (simp add: construct_eq_finish)
  then show "construct files cfg = Some (Inl (NameError ''fn_timestamp''))"
    using a assms by (simp add: finish_def)
qed

theorem boundary_check_raises_witness:
  "boundary_check (run_forward\<lparr>time_step := 30, boundary_check := True\<rparr>)
   \<and> discover era5_store (run_forward\<lparr>time_step := 30, boundary_check := True\<rparr>) = Some (Inr found_forward)
   \<and> construct era5_store (run_forward\<lparr>time_step := 30, boundary_check := True\<rparr>)
       = Some (Inl (NameError ''fn_timestamp''))"
proof -
  let ?cfg = "run_forward\<lparr>time_step := 30, boundary_check := True\<rparr>"
  have b: "boundary_check ?cfg" by simp
  have d: "discover era5_store ?cfg = Some (Inr found_forward)"
    by (simp only: discover_flags discover_run_forward)
  have "prepared_forward\<lparr>p_step_per_inpf := 21600 / real_of_int (30 * 60)\<rparr> = prepared_forward"
    by (simp add: prepared_forward_def)
  then have p: "prepare ?cfg found_forward = Inr prepared_forward"
    using prepare_run_forward_steps[of 30 True] by simp
  from boundary_check_raises[OF b, of era5_store] d p no_nan_prepared_forward
  have "construct era5_store ?cfg = Some (Inl (NameError ''fn_timestamp''))" by blast
  with b d show ?thesis by blast
qed

text \<open>
  Claim C6. When the steps before the validation have succeeded, the constructor ends
  with the fatal error of line 141 exactly when one of the sliced arrays \<open>U\<close>, \<open>V\<close>, \<open>W\<close>
  holds a not-a-number at some position (time, level, latitude, longitude); otherwise
  the validation passes and, the boundary-check flag being off, the object is returned
  with these arrays. No returned object holds a not-a-number.
\<close>

theorem nan_in_slice_is_fatal:
  assumes "discover files cfg = Some (Inr d)"
    and "prepare cfg d = Inr p"
  shows "((\<exists>i j k l. nan_at (p_U p) i j k l \<or> nan_at (p_V p) i j k l \<or> nan_at (p_W p) i j k l)
            \<longrightarrow> construct files cfg = Some (Inl (Fatal found_nan)))
         \<and> (\<not> (\<exists>i j k l. nan_at (p_U p) i j k l \<or> nan_at (p_V p) i j k l \<or> nan_at (p_W p) i j k l)
              \<longrightarrow> construct files cfg \<noteq> Some (Inl (Fatal found_nan))
                  \<and> (if boundary_check cfg then True
                      else \<exists>r. construct files cfg = Some (Inr r)
                             \<and> U r = p_U p \<and> V r = p_V p \<and> W r = p_W p))
         \<and> (\<forall>r i j k l. construct files cfg = Some (Inr r)
              \<longrightarrow> \<not> nan_at (U r) i j k l \<and> \<not> nan_at (V r) i j k l \<and> \<not> nan_at (W r) i j k l)"
proof -
  have c: "construct files cfg = Some (finish cfg d p)"
    by (rule construct_eq_finish[OF assms])
  have n: "(\<exists>i j k l. nan_at (p_U p) i j k l \<or> nan_at (p_V p) i j k l \<or> nan_at (p_W p) i j k l)
      \<longleftrightarrow> any_isnan (p_U p) \<or> any_isnan (p_V p) \<or> any_isnan (p_W p)"
    unfolding any_isnan_iff by blast
  have 1: "construct files cfg = Some (Inl (Fatal found_nan))"
    if "\<exists>i j k l. nan_at (p_U p) i j k l \<or> nan_at (p_V p) i j k l \<or> nan_at (p_W p) i j k l"
    using that unfolding n c by (simp add: finish_def throw_error_def)
  have 2: "construct files cfg \<noteq> Some (Inl (Fatal found_nan))
      \<and> (if boundary_check cfg then True
          else \<exists>r. construct files cfg = Some (Inr r) \<and> U r = p_U p \<and> V r = p_V p \<and> W r = p_W p)"
    if "\<not> (\<exists>i j k l. nan_at (p_U p) i j k l \<or> nan_at (p_V p) i j k l \<or> nan_at (p_W p) i j k l)"
    using that unfolding n c by (simp add: finish_def)
  have 3: "\<not> nan_at (U r) i j k l \<and> \<not> nan_at (V r) i j k l \<and> \<not> nan_at (W r) i j k l"
    if "construct files cfg = Some (Inr r)" for r i j k l
  proof -
    from that have f: "finish cfg d p = Inr r" unfolding c by simp
    have "U r = p_U p" "V r = p_V p" "W r = p_W p"
      by (subst finish_Inr(5)[OF f], simp)+
    then show ?thesis
      using finish_Inr(1-3)[OF f] unfolding any_isnan_iff by simp
  qed
  show ?thesis using 1 2 3 by blast
qed

theorem nan_in_slice_is_fatal_witness:
  "discover (era5_store_nan 737425) run_forward = Some (Inr found_nan_forward)
   \<and> prepare run_forward found_nan_forward = Inr prepared_nan_forward
   \<and> nan_at (p_W prepared_nan_forward) 2 0 0 3
   \<and> construct (era5_store_nan 737425) run_forward = Some (Inl (Fatal found_nan))
   \<and> (\<exists>r. construct era5_store run_forward = Some (Inr r) \<and> W r = p_W prepared_forward)"
proof -
  have n: "nan_at (p_W prepared_nan_forward) 2 0 0 3"
    by (simp add: nan_at_def prepared_nan_forward_def w_nan_sorted_def w_frame_def numeral_3_eq_3)
  from nan_in_slice_is_fatal[OF discover_nan_forward prepare_nan_forward] n
  have a: "construct (era5_store_nan 737425) run_forward = Some (Inl (Fatal found_nan))"
    by blast
  have "\<not> (\<exists>i j k l. nan_at (p_U prepared_forward) i j k l \<or> nan_at (p_V prepared_forward) i j k l
      \<or> nan_at (p_W prepared_forward) i j k l)"
    using no_nan_prepared_forward unfolding any_isnan_iff by blast
  moreover have "\<not> boundary_check run_forward" by (simp add: run_forward_def)
  ultimately have b: "\<exists>r. construct era5_store run_forward = Some (Inr r) \<and> W r = p_W prepared_forward"
    using nan_in_slice_is_fatal[OF discover_run_forward prepare_run_forward] by auto
  show ?thesis using discover_nan_forward prepare_nan_forward n a b by blast
qed

subsection \<open>Shapes and the time slice\<close>













subsection \<open>Longitude normalisation\<close>












lemma signed_convention:
  assumes "distinct lon" and "\<forall>L \<in> set lon. -180 \<le> L \<and> L < 180"
  shows "distinct (map where_negative lon)" and "\<forall>L \<in> set lon. -360 \<le> L \<and> L < 360"
proof -
  have "inj_on where_negative (set lon)"
  proof (rule inj_onI)
    fix a b
    assume a: "a \<in> set lon" and b: "b \<in> set lon" and e: "where_negative a = where_negative b"
    have "-180 \<le> a" "a < 180" "-180 \<le> b" "b < 180" using assms(2) a b by auto
    then show "a = b" using e by (simp add: where_negative_def split: if_splits)
  qed
  then show "distinct (map where_negative lon)" using assms(1) by (simp add: distinct_map)
  show "\<forall>L \<in> set lon. -360 \<le> L \<and> L < 360" using assms(2) by fastforce
qed




subsection \<open>A forward and a backward run over the same days\<close>

lemma rev_walk:
  "rev (n # walk_days n 1 k) = (n + int k) # walk_days (n + int k) (- 1) k"
proof (rule nth_equalityI)
  show "length (rev (n # walk_days n 1 k)) = length ((n + int k) # walk_days (n + int k) (- 1) k)"
    by simp
next
  fix i assume "i < length (rev (n # walk_days n 1 k))"
  then have i: "i < Suc k" by simp
  have "rev (n # walk_days n 1 k) ! i = (n # walk_days n 1 k) ! (k - i)"
    using i rev_nth[of i "n # walk_days n 1 k"] by (simp del: rev.simps)
  also have "\<dots> = map (\<lambda>j. n + 1 * int j) [0..<Suc k] ! (k - i)"
    by (simp only: walk_days_full)
  also have "\<dots> = n + int (k - i)"
  proof -
    have "k - i < Suc k" by simp
    then have "[0..<Suc k] ! (k - i) = k - i" by (simp only: nth_upt add_0)
    then show ?thesis using i by (simp del: upt_Suc)
  qed
  also have "\<dots> = (n + int k) + (- 1) * int i"
    using i by (simp add: of_nat_diff)
  also have "\<dots> = map (\<lambda>j. (n + int k) + (- 1) * int j) [0..<Suc k] ! i"
  proof -
    have "[0..<Suc k] ! i = i" using i by (simp only: nth_upt add_0)
    then show ?thesis using i by (simp del: upt_Suc)
  qed
  also have "\<dots> = ((n + int k) # walk_days (n + int k) (- 1) k) ! i"
    by (simp only: walk_days_full)
  finally show "rev (n # walk_days n 1 k) ! i = ((n + int k) # walk_days (n + int k) (- 1) k) ! i" .
qed

lemma day_start_mono: "n < m \<Longrightarrow> day_start (n + 1) \<le> day_start m"
  by (simp add: day_start_def to_ns_def)

lemma day_files_times:
  assumes "map Some dss = map (\<lambda>n. files (day_path input_dir n)) days"
    and "\<forall>n \<in> set days. holds_its_day files input_dir n"
    and "y \<in> set (concat (map ds_time dss))"
  shows "\<exists>m \<in> set days. day_start m \<le> y \<and> y < day_start (m + 1)"
  using assms
proof (induction days arbitrary: dss)
  case Nil
  then show ?case by simp
next
  case (Cons n days)
  then obtain d dss' where dss: "dss = d # dss'" by (cases dss) auto
  with Cons.prems have d: "files (day_path input_dir n) = Some d"
    and r: "map Some dss' = map (\<lambda>n. files (day_path input_dir n)) days"
    by simp_all
  from Cons.prems(3) dss consider "y \<in> set (ds_time d)" | "y \<in> set (concat (map ds_time dss'))"
    by auto
  then show ?case
  proof cases
    case 1
    have "holds_its_day files input_dir n" using Cons.prems(2) by simp
    then have "day_start n \<le> y \<and> y < day_start (n + 1)"
      using d 1 by (simp add: holds_its_day_def list_all_iff)
    then show ?thesis by auto
  next
    case 2
    from Cons.IH[OF r _ 2] Cons.prems(2) show ?thesis by auto
  qed
qed

lemma sorted_concat_days:
  assumes "sorted_wrt (<) days"
    and "map Some dss = map (\<lambda>n. files (day_path input_dir n)) days"
    and "\<forall>n \<in> set days. holds_its_day files input_dir n"
  shows "sorted_wrt (<) (concat (map ds_time dss))"
  using assms
proof (induction days arbitrary: dss)
  case Nil
  then show ?case by simp
next
  case (Cons n days)
  then obtain d dss' where dss: "dss = d # dss'" by (cases dss) auto
  with Cons.prems have d: "files (day_path input_dir n) = Some d"
    and r: "map Some dss' = map (\<lambda>n. files (day_path input_dir n)) days"
    by simp_all
  have h: "holds_its_day files input_dir n" and hs: "\<forall>m \<in> set days. holds_its_day files input_dir m"
    using Cons.prems(3) by simp_all
  have sd: "sorted_wrt (<) (ds_time d)"
    and bd: "\<forall>t \<in> set (ds_time d). t < day_start (n + 1)"
    using h d by (simp_all add: holds_its_day_def list_all_iff)
  have sr: "sorted_wrt (<) (concat (map ds_time dss'))"
    using Cons.IH[OF _ r hs] Cons.prems(1) by simp
  have "x < y" if "x \<in> set (ds_time d)" "y \<in> set (concat (map ds_time dss'))" for x y
  proof -
    from day_files_times[OF r hs that(2)] obtain m where m: "m \<in> set days" "day_start m \<le> y"
      by blast
    have "n < m" using Cons.prems(1) m(1) by simp
    from day_start_mono[OF this] bd that(1) m(2) show ?thesis by force
  qed
  then show ?case
    unfolding dss using sd sr by (simp add: sorted_wrt_append)
qed

lemma sorted_walk_days_up: "sorted_wrt (<) (n # walk_days n 1 k)"
  unfolding walk_days_full by (rule sorted_walk_up)

lemma discover_run_forward_span:
  "discover era5_store run_forward_span = Some (Inr found_forward_span)"
proof -
  have s: "strptime_ymdh (start_ymdh run_forward_span) = Inr \<lparr>ordinal = 737423, hour = 18\<rparr>"
    by (simp add: run_forward_span_def run_forward_def strptime_ymdh_def days_in_month_def ymd2ord_def
        days_before_year_def days_before_month_def is_leap_def nth_DBM nth_DIM Let_def)
  have f: "dt_add \<lparr>ordinal = 737423, hour = 18\<rparr>
      (timedelta_hours (forward_option run_forward_span * integration_length run_forward_span))
      = Inr \<lparr>ordinal = 737425, hour = 0\<rparr>"
    by (simp add: run_forward_span_def run_forward_def dt_add_def timedelta_hours_def MAXORDINAL_def Let_def)
  have e: "era5_store (day_path ''/era5'' 737423) = Some (day_dataset 737423)"
    "era5_store (day_path ''/era5'' 737424) = Some (day_dataset 737424)"
    "era5_store (day_path ''/era5'' 737425) = Some (day_dataset 737425)"
    by (simp_all add: era5_store_day MAXORDINAL_def)
  have w: "walk_days 737423 1 2 = [737424, 737425]"
    by (simp add: walk_days_def numeral_2_eq_2)
  have "discover era5_store run_forward_span = Some (Inr
      \<lparr>d_strt_t = \<lparr>ordinal = 737423, hour = 18\<rparr>, d_forward = 1,
       d_final_t = \<lparr>ordinal = 737425, hour = 0\<rparr>,
       d_nc_pres_files = [day_path ''/era5'' 737423, day_path ''/era5'' 737424, day_path ''/era5'' 737425],
       d_ds_grib = [day_dataset 737423, day_dataset 737424, day_dataset 737425]\<rparr>)"
    by (subst discover_walk[OF s _ _ f])
      (simp_all add: run_forward_span_def run_forward_def w e pres_path_day Let_def)
  then show ?thesis by (simp add: found_forward_span_def day_path_examples)
qed

lemma era5_holds_its_day:
  assumes "1 \<le> n" "n \<le> MAXORDINAL"
  shows "holds_its_day era5_store ''/era5'' n"
  by (simp add: holds_its_day_def era5_store_day[OF assms] day_dataset_def frame_times_def
      day_start_def to_ns_def)

text \<open>
  Claim C3, as amended. Let a forward run and a backward run cover the same calendar
  days (the backward run starts on the forward run's final date and ends on its start
  date). The backward run discovers the paths of the forward run in reverse order, so
  the two lists are equal as sets. The backward run reverses its loaded list and the
  forward run does not, so both runs concatenate the same per-file datasets in the same
  order, that of ascending date. When every file holds strictly increasing times of its
  own day, the time coordinate of the concatenation is strictly increasing in both runs.
\<close>

theorem forward_and_backward_over_one_span:
  assumes "discover files cf = Some (Inr df)"
    and "discover files cb = Some (Inr db)"
    and "forward_option cf = 1" and "forward_option cb = -1"
    and "0 \<le> integration_length cf" and "0 \<le> integration_length cb"
    and "input_era5_case cb = input_era5_case cf"
    and "ordinal (d_strt_t db) = ordinal (d_final_t df)"
    and "ordinal (d_final_t db) = ordinal (d_strt_t df)"
    and "\<forall>n \<in> {ordinal (d_strt_t df) .. ordinal (d_final_t df)}. holds_its_day files (input_era5_case cf) n"
  shows "d_nc_pres_files db = rev (d_nc_pres_files df)
         \<and> set (d_nc_pres_files db) = set (d_nc_pres_files df)
         \<and> fst (orient df) = d_ds_grib df
         \<and> fst (orient db) = rev (d_ds_grib db)
         \<and> fst (orient db) = fst (orient df)
         \<and> (\<forall>comb. concat_time (fst (orient df)) = Inr comb \<or> concat_time (fst (orient db)) = Inr comb
               \<longrightarrow> ds_time comb = concat (map ds_time (d_ds_grib df)))
         \<and> sorted_wrt (<) (concat (map ds_time (d_ds_grib df)))"
proof -
  note kf = discover_Inr_fields[OF assms(1)]
  note kb = discover_Inr_fields[OF assms(2)]
  note sf = strptime_ymdh_valid[OF kf(1)]
  note sb = strptime_ymdh_valid[OF kb(1)]
  have fwf: "forward_option cf = 1 \<or> forward_option cf = -1"
    and fwb: "forward_option cb = 1 \<or> forward_option cb = -1"
    using assms(3,4) by simp_all
  define k where "k = nat \<bar>ordinal (d_final_t df) - ordinal (d_strt_t df)\<bar>"
  have distf: "ordinal (d_final_t df) = ordinal (d_strt_t df) + int k"
    using final_day[OF fwf assms(5) sf(3,4) kf(2)] assms(3) by (simp add: k_def)
  have kb': "nat \<bar>ordinal (d_final_t db) - ordinal (d_strt_t db)\<bar> = k"
    unfolding assms(8,9) k_def by simp
  define days where "days = ordinal (d_strt_t df) # walk_days (ordinal (d_strt_t df)) 1 k"
  have daysb: "ordinal (d_strt_t db) # walk_days (ordinal (d_strt_t db)) (- 1) k = rev days"
    unfolding days_def rev_walk assms(8) distf by simp
  have ncf: "d_nc_pres_files df = map (day_path (input_era5_case cf)) days"
    using discover_Inr_lists(1)[OF assms(1) fwf assms(5)] by (simp add: assms(3) k_def days_def)
  have ncb: "d_nc_pres_files db = map (day_path (input_era5_case cf)) (rev days)"
    using discover_Inr_lists(1)[OF assms(2) fwb assms(6)]
    unfolding kb' assms(4) assms(7) daysb .
  have dsf: "map Some (d_ds_grib df) = map (\<lambda>n. files (day_path (input_era5_case cf) n)) days"
    using discover_Inr_lists(2)[OF assms(1) fwf assms(5)] by (simp add: assms(3) k_def days_def)
  have dsb: "map Some (d_ds_grib db) = map (\<lambda>n. files (day_path (input_era5_case cf) n)) (rev days)"
    using discover_Inr_lists(2)[OF assms(2) fwb assms(6)]
    unfolding kb' assms(4) assms(7) daysb .
  have "map Some (d_ds_grib db) = map Some (rev (d_ds_grib df))"
    unfolding dsb by (simp only: rev_map[symmetric] dsf)
  then have ds: "d_ds_grib db = rev (d_ds_grib df)"
    by (simp add: inj_map_eq_map)
  have c1: "d_nc_pres_files db = rev (d_nc_pres_files df)"
    unfolding ncb ncf by (simp only: rev_map)
  have c2: "set (d_nc_pres_files db) = set (d_nc_pres_files df)"
    unfolding c1 by simp
  have c3: "fst (orient df) = d_ds_grib df"
    using kf(3) assms(3) by (simp add: orient_def)
  have c4: "fst (orient db) = rev (d_ds_grib db)"
    using kb(3) assms(4) by (simp add: orient_def)
  have c5: "fst (orient db) = fst (orient df)"
    unfolding c3 c4 ds by simp
  have c6: "\<forall>comb. concat_time (fst (orient df)) = Inr comb \<or> concat_time (fst (orient db)) = Inr comb
      \<longrightarrow> ds_time comb = concat (map ds_time (d_ds_grib df))"
    unfolding c5 unfolding c3 using concat_time_time by blast
  have "set days = {ordinal (d_strt_t df) .. ordinal (d_final_t df)}"
    unfolding days_def distf by (auto simp: set_walk_days_fwd)
  then have h: "\<forall>n \<in> set days. holds_its_day files (input_era5_case cf) n"
    using assms(10) by simp
  have "sorted_wrt (<) days" unfolding days_def by (rule sorted_walk_days_up)
  then have c7: "sorted_wrt (<) (concat (map ds_time (d_ds_grib df)))"
    using dsf h by (rule sorted_concat_days)
  show ?thesis using c1 c2 c3 c4 c5 c6 c7 by blast
qed

theorem forward_and_backward_over_one_span_witness:
  "discover era5_store run_forward_span = Some (Inr found_forward_span)
   \<and> discover era5_store run_backward = Some (Inr found_backward)
   \<and> d_nc_pres_files found_backward = rev (d_nc_pres_files found_forward_span)
   \<and> fst (orient found_backward) = fst (orient found_forward_span)
   \<and> sorted_wrt (<) (concat (map ds_time (d_ds_grib found_forward_span)))"
proof -
  have v: "forward_option run_forward_span = 1" "forward_option run_backward = -1"
    "0 \<le> integration_length run_forward_span" "0 \<le> integration_length run_backward"
    "input_era5_case run_backward = input_era5_case run_forward_span"
    "ordinal (d_strt_t found_backward) = ordinal (d_final_t found_forward_span)"
    "ordinal (d_final_t found_backward) = ordinal (d_strt_t found_forward_span)"
    by (simp_all add: run_forward_span_def run_backward_def run_forward_def found_backward_def
        found_forward_span_def)
  have h: "\<forall>n \<in> {ordinal (d_strt_t found_forward_span) .. ordinal (d_final_t found_forward_span)}.
      holds_its_day era5_store (input_era5_case run_forward_span) n"
    by (auto simp: found_forward_span_def run_forward_span_def run_forward_def MAXORDINAL_def
        intro!: era5_holds_its_day)
  from forward_and_backward_over_one_span[OF discover_run_forward_span discover_run_backward v h]
  have "d_nc_pres_files found_backward = rev (d_nc_pres_files found_forward_span)
   \<and> fst (orient found_backward) = fst (orient found_forward_span)
   \<and> sorted_wrt (<) (concat (map ds_time (d_ds_grib found_forward_span)))"
    by blast
  then show ?thesis using discover_run_forward_span discover_run_backward by blast
qed

text \<open>
  Claim C3 as stated fails on the two runs over 2019-12-30 to 2020-01-01: both
  concatenate the files of 30 December, 31 December and 1 January in this order, and
  this order is not its own reverse.
\<close>

theorem concatenation_order_counterexample:
  "discover era5_store run_forward_span = Some (Inr found_forward_span)
   \<and> discover era5_store run_backward = Some (Inr found_backward)
   \<and> fst (orient found_forward_span) = [day_dataset 737423, day_dataset 737424, day_dataset 737425]
   \<and> fst (orient found_backward) = [day_dataset 737423, day_dataset 737424, day_dataset 737425]
   \<and> fst (orient found_backward) \<noteq> rev (fst (orient found_forward_span))"
proof -
  have "day_dataset 737423 \<noteq> day_dataset 737425"
    by (simp add: day_dataset_def frame_times_def to_ns_def)
  then show ?thesis
    using discover_run_forward_span discover_run_backward
    by (simp add: orient_def found_forward_span_def found_backward_def)
qed

end
